theory Spec2Isabelle
  imports Main "HOL-Library.AList"
begin

section \<open>Data model (internal/models/models.go)\<close>

text \<open>
  The structs of the models package, one record each. Field names carry a prefix because
  record fields share one name space. Timestamps are natural numbers; the creation
  timestamps of users, sessions and tickets are left out, since no modelled operation
  reads them. A Go pointer that may be nil is an option.
\<close>

record User =
  u_ID :: string
  u_Username :: string

record Vote =
  v_ID :: int
  v_TicketID :: int
  v_UserID :: string
  v_VoteValue :: string
  v_CreatedAt :: nat
  v_User :: "User option"

record Ticket =
  t_ID :: int
  t_SessionID :: string
  t_Title :: string
  t_Description :: string
  t_FinalEstimate :: "int option"
  t_Position :: int
  t_Votes :: "Vote list"

record Session =
  s_ID :: string
  s_Name :: string
  s_OwnerID :: string
  s_CurrentTicketID :: "int option"
  s_IsVotingActive :: bool
  s_UpdatedAt :: nat
  s_Tickets :: "Ticket list"
  s_CurrentTicket :: "Ticket option"

text \<open>The payload of an SSEMessage (\<open>Data interface{}\<close>), one constructor per shape
  that a handler builds.\<close>

datatype Payload =
    TicketData "Ticket option"
  | VoteCastData string Vote
  | VotingEndedData "Ticket option" "Vote list"
  | TicketIDData int
  | MessageData string

record SSEMessage =
  m_Type :: string
  m_Data :: Payload

definition FibonacciCards :: "string list" where
  "FibonacciCards = [''0'', ''1'', ''2'', ''3'', ''5'', ''8'', ''13'', ''21'', ''34'',
     ''55'', ''89'', ''144'']"

definition SpecialCards :: "string list" where
  "SpecialCards = [[CHR 0xE2, CHR 0x98, CHR 0x95], ''?'']"

definition AllVotingCards :: "string list" where
  "AllVotingCards = FibonacciCards @ SpecialCards"

section \<open>Validation (internal/utils/validation.go)\<close>

text \<open>\<open>ValidateVoteValue\<close> returns the list of validation errors; the handler only asks
  whether it is empty, so the model returns \<open>HasErrors\<close>. The tenth entry of the source's
  table is the seven bytes the file holds there.\<close>

definition validVotes :: "string list" where
  "validVotes = [''0'', ''1'', ''2'', ''3'', ''5'', ''8'', ''13'', ''21'', ''34'',
     [CHR 0xC3, CHR 0xA2, CHR 0xCB, CHR 0x9C, CHR 0xE2, CHR 0x80, CHR 0xA2], ''?'']"

definition ValidateVoteValue_HasErrors :: "string \<Rightarrow> bool" where
  "ValidateVoteValue_HasErrors voteValue = (voteValue \<notin> set validVotes)"

definition ValidateTicketDescription_HasErrors :: "string \<Rightarrow> bool" where
  "ValidateTicketDescription_HasErrors description = (length description > 1000)"

text \<open>The functions of Go's standard library that the handlers call are parameters of the
  model: \<open>strings.TrimSpace\<close>, \<open>html.EscapeString\<close>, \<open>strconv.Atoi\<close> (None when it returns
  an error) and the match of \<open>ticketTitleRegex\<close>.\<close>

record GoLib =
  TrimSpace :: "string \<Rightarrow> string"
  EscapeString :: "string \<Rightarrow> string"
  Atoi :: "string \<Rightarrow> int option"
  ticketTitleRegex_MatchString :: "string \<Rightarrow> bool"

definition SanitizeInput :: "GoLib \<Rightarrow> string \<Rightarrow> string" where
  "SanitizeInput lib input = EscapeString lib (TrimSpace lib input)"

definition ValidateTicketTitle_HasErrors :: "GoLib \<Rightarrow> string \<Rightarrow> bool" where
  "ValidateTicketTitle_HasErrors lib title0 =
     (let title = TrimSpace lib title0 in
      if title = [] then True
      else \<not> ticketTitleRegex_MatchString lib title)"

section \<open>Storage (internal/services: SessionService, VotingService, TicketService)\<close>

text \<open>
  The SQLite tables of migrations/001\_initial\_schema.sql as lists of rows, scanned into
  the structs above (a row leaves the joined fields \<open>t_Votes\<close>, \<open>v_User\<close>, \<open>s_Tickets\<close>
  and \<open>s_CurrentTicket\<close> empty). The two counters are the AUTOINCREMENT sequences.
  The participants table is not modelled: no operation below reads it.
\<close>

record DB =
  users :: "User list"
  sessions :: "Session list"
  tickets :: "Ticket list"
  votes :: "Vote list"
  ticket_seq :: int
  vote_seq :: int

datatype storage_op =
    OpCreateSession | OpGetSessionByID | OpUpdateSession | OpDeleteSession
  | OpSubmitVote | OpGetVotesForTicket | OpClearVotesForTicket
  | OpCreateTicket | OpGetTicketByID | OpUpdateTicket | OpDeleteTicket

text \<open>What a request does to the outside, in the order it does it: each call of a storage
  service with whether it returned without error, and each message handed to the hub.\<close>

datatype effect =
    Call storage_op bool
  | Emit string SSEMessage

record World =
  db :: DB
  log :: "effect list"

definition called :: "storage_op \<Rightarrow> bool \<Rightarrow> World \<Rightarrow> World" where
  "called op ok w = w\<lparr>log := log w @ [Call op ok]\<rparr>"

definition Broadcast :: "string \<Rightarrow> SSEMessage \<Rightarrow> World \<Rightarrow> World" where
  "Broadcast sessionID message w = w\<lparr>log := log w @ [Emit sessionID message]\<rparr>"

text \<open>\<open>getTicketVotes\<close> and \<open>GetVotesForTicket\<close> run the same query: the votes of the
  ticket joined with their user (users.id is the primary key, so at most one row joins;
  a vote whose user row is gone drops out), ordered by \<open>created_at\<close>.\<close>

definition join_user :: "User list \<Rightarrow> Vote \<Rightarrow> Vote option" where
  "join_user us v =
     (case find (\<lambda>u. u_ID u = v_UserID v) us of
        None \<Rightarrow> None
      | Some u \<Rightarrow> Some (v\<lparr>v_User := Some \<lparr>u_ID = v_UserID v, u_Username = u_Username u\<rparr>\<rparr>))"

definition getTicketVotes :: "DB \<Rightarrow> int \<Rightarrow> Vote list" where
  "getTicketVotes d ticketID =
     sort_key v_CreatedAt
       (List.map_filter (join_user (users d)) (filter (\<lambda>v. v_TicketID v = ticketID) (votes d)))"

definition getSessionTickets :: "DB \<Rightarrow> string \<Rightarrow> Ticket list" where
  "getSessionTickets d sessionID =
     map (\<lambda>t. t\<lparr>t_Votes := getTicketVotes d (t_ID t)\<rparr>)
       (sort_key t_Position (filter (\<lambda>t. t_SessionID t = sessionID) (tickets d)))"

definition loadSession :: "DB \<Rightarrow> Session \<Rightarrow> Session" where
  "loadSession d row =
     (let ts = getSessionTickets d (s_ID row) in
      row\<lparr>s_Tickets := ts,
          s_CurrentTicket :=
            (case s_CurrentTicketID row of
               None \<Rightarrow> None
             | Some tid \<Rightarrow> find (\<lambda>t. t_ID t = tid) ts)\<rparr>)"

datatype db_error = DBError

definition GetSessionByID ::
  "storage_op set \<Rightarrow> string \<Rightarrow> World \<Rightarrow> (db_error + Session option) \<times> World" where
  "GetSessionByID fails sessionID w =
     (if OpGetSessionByID \<in> fails then (Inl DBError, called OpGetSessionByID False w)
      else (Inr (map_option (loadSession (db w))
                   (find (\<lambda>s. s_ID s = sessionID) (sessions (db w)))),
            called OpGetSessionByID True w))"

text \<open>\<open>CreateSession\<close> inserts the row (\<open>sessionID\<close> is the fresh UUID) with no current
  ticket and voting inactive, the column defaults; the insert fails on an id that is
  already there, the primary key.\<close>

definition CreateSession_svc ::
  "storage_op set \<Rightarrow> string \<Rightarrow> nat \<Rightarrow> string \<Rightarrow> string \<Rightarrow> World \<Rightarrow> (db_error + Session) \<times> World" where
  "CreateSession_svc fails sessionID now name ownerID w =
     (if OpCreateSession \<in> fails \<or> sessionID \<in> s_ID ` set (sessions (db w))
      then (Inl DBError, called OpCreateSession False w)
      else (let session = \<lparr>s_ID = sessionID, s_Name = name, s_OwnerID = ownerID,
                             s_CurrentTicketID = None, s_IsVotingActive = False,
                             s_UpdatedAt = now, s_Tickets = [], s_CurrentTicket = None\<rparr>
            in (Inr session,
                called OpCreateSession True
                  (w\<lparr>db := (db w)\<lparr>sessions := sessions (db w) @ [session]\<rparr>\<rparr>))))"

definition update_session_row :: "Session \<Rightarrow> nat \<Rightarrow> Session \<Rightarrow> Session" where
  "update_session_row session now row =
     (if s_ID row = s_ID session
      then row\<lparr>s_Name := s_Name session,
               s_CurrentTicketID := s_CurrentTicketID session,
               s_IsVotingActive := s_IsVotingActive session,
               s_UpdatedAt := now\<rparr>
      else row)"

definition UpdateSession ::
  "storage_op set \<Rightarrow> nat \<Rightarrow> Session \<Rightarrow> World \<Rightarrow> (db_error + unit) \<times> World" where
  "UpdateSession fails now session w =
     (if OpUpdateSession \<in> fails then (Inl DBError, called OpUpdateSession False w)
      else (Inr (),
            called OpUpdateSession True
              (w\<lparr>db := (db w)\<lparr>sessions :=
                    map (update_session_row session now) (sessions (db w))\<rparr>\<rparr>)))"

text \<open>\<open>DELETE FROM sessions\<close>; the schema cascades to the session's tickets and to
  their votes.\<close>

definition DeleteSession_svc ::
  "storage_op set \<Rightarrow> string \<Rightarrow> World \<Rightarrow> (db_error + unit) \<times> World" where
  "DeleteSession_svc fails sessionID w =
     (if OpDeleteSession \<in> fails then (Inl DBError, called OpDeleteSession False w)
      else (let d = db w;
                gone = map t_ID (filter (\<lambda>t. t_SessionID t = sessionID) (tickets d))
            in (Inr (),
                called OpDeleteSession True
                  (w\<lparr>db := d\<lparr>sessions := filter (\<lambda>s. s_ID s \<noteq> sessionID) (sessions d),
                              tickets := filter (\<lambda>t. t_SessionID t \<noteq> sessionID) (tickets d),
                              votes := filter (\<lambda>v. v_TicketID v \<notin> set gone) (votes d)\<rparr>\<rparr>))))"

text \<open>\<open>INSERT OR REPLACE\<close> under \<open>UNIQUE(ticket_id, user_id)\<close>: the row of the same
  ticket and user, if any, is deleted and the new row inserted with the next id.\<close>

definition SubmitVote_svc ::
  "storage_op set \<Rightarrow> nat \<Rightarrow> int \<Rightarrow> string \<Rightarrow> string \<Rightarrow> World \<Rightarrow> (db_error + Vote) \<times> World" where
  "SubmitVote_svc fails now ticketID userID voteValue w =
     (if OpSubmitVote \<in> fails then (Inl DBError, called OpSubmitVote False w)
      else (let d = db w;
                vote = \<lparr>v_ID = vote_seq d + 1, v_TicketID = ticketID, v_UserID = userID,
                        v_VoteValue = voteValue, v_CreatedAt = now, v_User = None\<rparr>
            in (Inr vote,
                called OpSubmitVote True
                  (w\<lparr>db := d\<lparr>votes :=
                          filter (\<lambda>v. \<not> (v_TicketID v = ticketID \<and> v_UserID v = userID)) (votes d)
                            @ [vote],
                        vote_seq := vote_seq d + 1\<rparr>\<rparr>))))"

definition GetVotesForTicket ::
  "storage_op set \<Rightarrow> int \<Rightarrow> World \<Rightarrow> (db_error + Vote list) \<times> World" where
  "GetVotesForTicket fails ticketID w =
     (if OpGetVotesForTicket \<in> fails then (Inl DBError, called OpGetVotesForTicket False w)
      else (Inr (getTicketVotes (db w) ticketID), called OpGetVotesForTicket True w))"

definition ClearVotesForTicket ::
  "storage_op set \<Rightarrow> int \<Rightarrow> World \<Rightarrow> (db_error + unit) \<times> World" where
  "ClearVotesForTicket fails ticketID w =
     (if OpClearVotesForTicket \<in> fails then (Inl DBError, called OpClearVotesForTicket False w)
      else (Inr (),
            called OpClearVotesForTicket True
              (w\<lparr>db := (db w)\<lparr>votes := filter (\<lambda>v. v_TicketID v \<noteq> ticketID) (votes (db w))\<rparr>\<rparr>)))"

section \<open>Ticket storage (TicketService)\<close>

definition max_position :: "Ticket list \<Rightarrow> int" where
  "max_position ts = fold (\<lambda>t m. max (t_Position t) m) ts 0"

text \<open>\<open>CreateTicket\<close>: \<open>COALESCE(MAX(position), 0)\<close> over the session's tickets, then
  the insert. (\<open>max_position\<close> starts from 0, as COALESCE does on no rows; positions are
  written from 1 upwards.)\<close>

definition CreateTicket_svc ::
  "storage_op set \<Rightarrow> string \<Rightarrow> string \<Rightarrow> string \<Rightarrow> World \<Rightarrow> (db_error + Ticket) \<times> World" where
  "CreateTicket_svc fails sessionID title description w =
     (if OpCreateTicket \<in> fails then (Inl DBError, called OpCreateTicket False w)
      else (let d = db w;
                maxPosition = max_position (filter (\<lambda>t. t_SessionID t = sessionID) (tickets d));
                ticket = \<lparr>t_ID = ticket_seq d + 1, t_SessionID = sessionID, t_Title = title,
                          t_Description = description, t_FinalEstimate = None,
                          t_Position = maxPosition + 1, t_Votes = []\<rparr>
            in (Inr ticket,
                called OpCreateTicket True
                  (w\<lparr>db := d\<lparr>tickets := tickets d @ [ticket],
                              ticket_seq := ticket_seq d + 1\<rparr>\<rparr>))))"

definition GetTicketByID ::
  "storage_op set \<Rightarrow> int \<Rightarrow> World \<Rightarrow> (db_error + Ticket option) \<times> World" where
  "GetTicketByID fails ticketID w =
     (if OpGetTicketByID \<in> fails then (Inl DBError, called OpGetTicketByID False w)
      else (Inr (find (\<lambda>t. t_ID t = ticketID) (tickets (db w))),
            called OpGetTicketByID True w))"

definition update_ticket_row :: "Ticket \<Rightarrow> Ticket \<Rightarrow> Ticket" where
  "update_ticket_row ticket row =
     (if t_ID row = t_ID ticket
      then row\<lparr>t_Title := t_Title ticket, t_Description := t_Description ticket,
               t_FinalEstimate := t_FinalEstimate ticket, t_Position := t_Position ticket\<rparr>
      else row)"

definition UpdateTicket_svc ::
  "storage_op set \<Rightarrow> Ticket \<Rightarrow> World \<Rightarrow> (db_error + unit) \<times> World" where
  "UpdateTicket_svc fails ticket w =
     (if OpUpdateTicket \<in> fails then (Inl DBError, called OpUpdateTicket False w)
      else (Inr (),
            called OpUpdateTicket True
              (w\<lparr>db := (db w)\<lparr>tickets := map (update_ticket_row ticket) (tickets (db w))\<rparr>\<rparr>)))"

text \<open>\<open>DeleteTicket\<close> reads the ticket, fails when there is none, and in one transaction
  deletes the row (its votes cascade) and moves the later tickets of the session up.\<close>

definition shift_position :: "Ticket \<Rightarrow> Ticket \<Rightarrow> Ticket" where
  "shift_position ticket row =
     (if t_SessionID row = t_SessionID ticket \<and> t_Position row > t_Position ticket
      then row\<lparr>t_Position := t_Position row - 1\<rparr> else row)"

definition DeleteTicket_svc ::
  "storage_op set \<Rightarrow> int \<Rightarrow> World \<Rightarrow> (db_error + unit) \<times> World" where
  "DeleteTicket_svc fails ticketID w =
     (if OpDeleteTicket \<in> fails then (Inl DBError, called OpDeleteTicket False w)
      else (case find (\<lambda>t. t_ID t = ticketID) (tickets (db w)) of
              None \<Rightarrow> (Inl DBError, called OpDeleteTicket False w)
            | Some ticket \<Rightarrow>
                (Inr (),
                 called OpDeleteTicket True
                   (w\<lparr>db := (db w)\<lparr>
                        tickets := map (shift_position ticket)
                                     (filter (\<lambda>t. t_ID t \<noteq> ticketID) (tickets (db w))),
                        votes := filter (\<lambda>v. v_TicketID v \<noteq> ticketID) (votes (db w))\<rparr>\<rparr>))))"

section \<open>Requests and responses\<close>

text \<open>
  What a handler reads from the request: the user that \<open>GetUserFromContext\<close> finds (None
  for nil), the URL parameters, the form values, the \<open>HX-Request\<close> header, and the clock
  reading of \<open>time.Now()\<close> during the request. \<open>fails\<close>, the first argument of every
  handler after the library, is the set of storage services that return an error while
  the request runs.
\<close>

record Request =
  r_user :: "User option"
  r_sessionID :: string
  r_ticketID :: string
  r_vote :: string
  r_title :: string
  r_description :: string
  r_final_estimate :: string
  r_HX_Request :: string
  r_now :: nat

datatype go_panic = NilPointerDereference | SendOnClosedChannel | CloseOfClosedChannel

text \<open>What the handler leaves in the ResponseWriter: \<open>http.Error\<close> (message, status),
  \<open>utils.WriteHTMLError\<close>, \<open>http.Redirect\<close> (URL, status), a bare \<open>WriteHeader\<close>; or the
  handler does not return at all and panics.\<close>

datatype Response =
    Error string nat
  | HTMLError nat
  | Redirect string nat
  | WriteHeader nat
  | Panics go_panic

section \<open>Voting handlers (internal/handlers/voting.go)\<close>

definition SubmitVote ::
  "GoLib \<Rightarrow> storage_op set \<Rightarrow> Request \<Rightarrow> World \<Rightarrow> Response \<times> World" where
  "SubmitVote lib fails r w =
     (case r_user r of
        None \<Rightarrow> (Error ''Unauthorized'' 401, w)
      | Some user \<Rightarrow>
          (let sessionID = r_sessionID r;
               voteValue = SanitizeInput lib (r_vote r)
           in if ValidateVoteValue_HasErrors voteValue then (HTMLError 400, w)
              else
                (case GetSessionByID fails sessionID w of
                   (Inl err, w1) \<Rightarrow> (Error ''Failed to get session'' 500, w1)
                 | (Inr None, w1) \<Rightarrow> (Error ''Session not found'' 404, w1)
                 | (Inr (Some session), w1) \<Rightarrow>
                     (case s_CurrentTicket session of
                        None \<Rightarrow> (Error ''No active ticket'' 400, w1)
                      | Some currentTicket \<Rightarrow>
                          if voteValue \<notin> set AllVotingCards
                          then (Error ''Invalid vote value'' 400, w1)
                          else
                            (case SubmitVote_svc fails (r_now r) (t_ID currentTicket)
                                    (u_ID user) voteValue w1 of
                               (Inl err, w2) \<Rightarrow> (Error ''Failed to submit vote'' 500, w2)
                             | (Inr vote, w2) \<Rightarrow>
                                 (WriteHeader 200,
                                  Broadcast sessionID
                                    \<lparr>m_Type = ''vote-cast'',
                                     m_Data = VoteCastData (u_ID user) vote\<rparr> w2))))))"

definition StartVoting ::
  "storage_op set \<Rightarrow> Request \<Rightarrow> World \<Rightarrow> Response \<times> World" where
  "StartVoting fails r w =
     (case r_user r of
        None \<Rightarrow> (Error ''Unauthorized'' 401, w)
      | Some user \<Rightarrow>
          (let sessionID = r_sessionID r in
           case GetSessionByID fails sessionID w of
             (Inl err, w1) \<Rightarrow> (Error ''Failed to get session'' 500, w1)
           | (Inr None, w1) \<Rightarrow> (Error ''Session not found'' 404, w1)
           | (Inr (Some session0), w1) \<Rightarrow>
               if s_OwnerID session0 \<noteq> u_ID user
               then (Error ''Only session owner can start voting'' 403, w1)
               else
                 (case s_CurrentTicket session0 of
                    None \<Rightarrow> (Error ''No active ticket'' 400, w1)
                  | Some currentTicket \<Rightarrow>
                      (let session = session0\<lparr>s_IsVotingActive := True\<rparr> in
                       case UpdateSession fails (r_now r) session w1 of
                         (Inl err, w2) \<Rightarrow> (Error ''Failed to start voting'' 500, w2)
                       | (Inr u, w2) \<Rightarrow>
                           (case ClearVotesForTicket fails (t_ID currentTicket) w2 of
                              (Inl err, w3) \<Rightarrow> (Error ''Failed to clear votes'' 500, w3)
                            | (Inr u', w3) \<Rightarrow>
                                (Redirect (''/session/'' @ sessionID) 303,
                                 Broadcast sessionID
                                   \<lparr>m_Type = ''voting-started'',
                                    m_Data = TicketData (s_CurrentTicket session)\<rparr> w3))))))"

text \<open>\<open>EndVoting\<close> reads \<open>session.CurrentTicket.ID\<close> after the update without a nil check:
  with no current ticket the read is a nil pointer dereference.\<close>

definition EndVoting ::
  "storage_op set \<Rightarrow> Request \<Rightarrow> World \<Rightarrow> Response \<times> World" where
  "EndVoting fails r w =
     (case r_user r of
        None \<Rightarrow> (Error ''Unauthorized'' 401, w)
      | Some user \<Rightarrow>
          (let sessionID = r_sessionID r in
           case GetSessionByID fails sessionID w of
             (Inl err, w1) \<Rightarrow> (Error ''Failed to get session'' 500, w1)
           | (Inr None, w1) \<Rightarrow> (Error ''Session not found'' 404, w1)
           | (Inr (Some session0), w1) \<Rightarrow>
               if s_OwnerID session0 \<noteq> u_ID user
               then (Error ''Only session owner can end voting'' 403, w1)
               else
                 (let session = session0\<lparr>s_IsVotingActive := False\<rparr> in
                  case UpdateSession fails (r_now r) session w1 of
                    (Inl err, w2) \<Rightarrow> (Error ''Failed to end voting'' 500, w2)
                  | (Inr u, w2) \<Rightarrow>
                      (case s_CurrentTicket session of
                         None \<Rightarrow> (Panics NilPointerDereference, w2)
                       | Some currentTicket \<Rightarrow>
                           (case GetVotesForTicket fails (t_ID currentTicket) w2 of
                              (Inl err, w3) \<Rightarrow> (Error ''Failed to get votes'' 500, w3)
                            | (Inr vs, w3) \<Rightarrow>
                                (Redirect (''/session/'' @ sessionID) 303,
                                 Broadcast sessionID
                                   \<lparr>m_Type = ''voting-ended'',
                                    m_Data = VotingEndedData (s_CurrentTicket session) vs\<rparr>
                                   w3))))))"

text \<open>The loop of \<open>NextTicket\<close> over \<open>session.Tickets\<close>: the ticket after the first index
  \<open>i\<close> whose ticket has the current id and has a successor.\<close>

fun find_next :: "int \<Rightarrow> Ticket list \<Rightarrow> Ticket option" where
  "find_next cur [] = None"
| "find_next cur [t] = None"
| "find_next cur (t # t' # ts) = (if t_ID t = cur then Some t' else find_next cur (t' # ts))"

definition NextTicket ::
  "storage_op set \<Rightarrow> Request \<Rightarrow> World \<Rightarrow> Response \<times> World" where
  "NextTicket fails r w =
     (case r_user r of
        None \<Rightarrow> (Error ''Unauthorized'' 401, w)
      | Some user \<Rightarrow>
          (let sessionID = r_sessionID r in
           case GetSessionByID fails sessionID w of
             (Inl err, w1) \<Rightarrow> (Error ''Failed to get session'' 500, w1)
           | (Inr None, w1) \<Rightarrow> (Error ''Session not found'' 404, w1)
           | (Inr (Some session0), w1) \<Rightarrow>
               if s_OwnerID session0 \<noteq> u_ID user
               then (Error ''Only session owner can advance tickets'' 403, w1)
               else
                 (let nextTicket =
                        (case s_CurrentTicket session0 of
                           None \<Rightarrow> (case s_Tickets session0 of [] \<Rightarrow> None | t # ts \<Rightarrow> Some t)
                         | Some currentTicket \<Rightarrow>
                             find_next (t_ID currentTicket) (s_Tickets session0));
                      session = session0\<lparr>s_CurrentTicketID := map_option t_ID nextTicket,
                                         s_IsVotingActive := False\<rparr>
                  in case UpdateSession fails (r_now r) session w1 of
                       (Inl err, w2) \<Rightarrow> (Error ''Failed to advance ticket'' 500, w2)
                     | (Inr u, w2) \<Rightarrow>
                         (Redirect (''/session/'' @ sessionID) 303,
                          Broadcast sessionID
                            \<lparr>m_Type = ''ticket-changed'', m_Data = TicketData nextTicket\<rparr>
                            w2))))"

definition SelectTicket ::
  "GoLib \<Rightarrow> storage_op set \<Rightarrow> Request \<Rightarrow> World \<Rightarrow> Response \<times> World" where
  "SelectTicket lib fails r w =
     (case r_user r of
        None \<Rightarrow> (Error ''Unauthorized'' 401, w)
      | Some user \<Rightarrow>
          (let sessionID = r_sessionID r;
               ticketIDStr = r_ticketID r
           in case GetSessionByID fails sessionID w of
             (Inl err, w1) \<Rightarrow> (Error ''Failed to get session'' 500, w1)
           | (Inr None, w1) \<Rightarrow> (Error ''Session not found'' 404, w1)
           | (Inr (Some session0), w1) \<Rightarrow>
               if s_OwnerID session0 \<noteq> u_ID user
               then (Error ''Only session owner can select tickets'' 403, w1)
               else
                 (case Atoi lib ticketIDStr of
                    None \<Rightarrow> (Error ''Invalid ticket ID'' 400, w1)
                  | Some ticketID \<Rightarrow>
                      (case find (\<lambda>t. t_ID t = ticketID) (s_Tickets session0) of
                         None \<Rightarrow> (Error ''Ticket not found'' 404, w1)
                       | Some selectedTicket \<Rightarrow>
                           (let session = session0\<lparr>s_CurrentTicketID := Some ticketID,
                                                  s_IsVotingActive := False\<rparr>
                            in case UpdateSession fails (r_now r) session w1 of
                                 (Inl err, w2) \<Rightarrow> (Error ''Failed to select ticket'' 500, w2)
                               | (Inr u, w2) \<Rightarrow>
                                   (Redirect (''/session/'' @ sessionID) 303,
                                    Broadcast sessionID
                                      \<lparr>m_Type = ''ticket-changed'',
                                       m_Data = TicketData (Some selectedTicket)\<rparr> w2))))))"

section \<open>Ticket and session handlers (internal/handlers)\<close>

definition CreateTicket ::
  "GoLib \<Rightarrow> storage_op set \<Rightarrow> Request \<Rightarrow> World \<Rightarrow> Response \<times> World" where
  "CreateTicket lib fails r w =
     (case r_user r of
        None \<Rightarrow> (Error ''Unauthorized'' 401, w)
      | Some user \<Rightarrow>
          (let sessionID = r_sessionID r in
           case GetSessionByID fails sessionID w of
             (Inl err, w1) \<Rightarrow> (Error ''Failed to get session'' 500, w1)
           | (Inr None, w1) \<Rightarrow> (Error ''Session not found'' 404, w1)
           | (Inr (Some session), w1) \<Rightarrow>
               if s_OwnerID session \<noteq> u_ID user
               then (Error ''Only session owner can create tickets'' 403, w1)
               else
                 (let title = SanitizeInput lib (r_title r);
                      description = SanitizeInput lib (r_description r)
                  in if ValidateTicketTitle_HasErrors lib title
                        \<or> ValidateTicketDescription_HasErrors description
                     then (HTMLError 400, w1)
                     else
                       (case CreateTicket_svc fails sessionID title description w1 of
                          (Inl err, w2) \<Rightarrow> (Error ''Failed to create ticket'' 500, w2)
                        | (Inr ticket, w2) \<Rightarrow>
                            (if r_HX_Request r \<noteq> [] then WriteHeader 200
                             else Redirect (''/session/'' @ sessionID) 303,
                             Broadcast sessionID
                               \<lparr>m_Type = ''ticket-created'',
                                m_Data = TicketData (Some ticket)\<rparr> w2)))))"

definition DeleteTicket ::
  "GoLib \<Rightarrow> storage_op set \<Rightarrow> Request \<Rightarrow> World \<Rightarrow> Response \<times> World" where
  "DeleteTicket lib fails r w =
     (case r_user r of
        None \<Rightarrow> (Error ''Unauthorized'' 401, w)
      | Some user \<Rightarrow>
          (let sessionID = r_sessionID r;
               ticketIDStr = r_ticketID r
           in case Atoi lib ticketIDStr of
             None \<Rightarrow> (Error ''Invalid ticket ID'' 400, w)
           | Some ticketID \<Rightarrow>
          (case GetSessionByID fails sessionID w of
             (Inl err, w1) \<Rightarrow> (Error ''Failed to get session'' 500, w1)
           | (Inr None, w1) \<Rightarrow> (Error ''Session not found'' 404, w1)
           | (Inr (Some session0), w1) \<Rightarrow>
               if s_OwnerID session0 \<noteq> u_ID user
               then (Error ''Only session owner can delete tickets'' 403, w1)
               else
                 (case GetTicketByID fails ticketID w1 of
                    (Inl err, w2) \<Rightarrow> (Error ''Failed to get ticket'' 500, w2)
                  | (Inr None, w2) \<Rightarrow> (Error ''Ticket not found'' 404, w2)
                  | (Inr (Some ticket), w2) \<Rightarrow>
                      if t_SessionID ticket \<noteq> sessionID
                      then (Error ''Ticket does not belong to this session'' 400, w2)
                      else
                        (case (if s_CurrentTicketID session0 = Some ticketID
                               then UpdateSession fails (r_now r)
                                      (session0\<lparr>s_CurrentTicketID := None,
                                                s_IsVotingActive := False\<rparr>) w2
                               else (Inr (), w2)) of
                           (Inl err, w3) \<Rightarrow> (Error ''Failed to update session'' 500, w3)
                         | (Inr u, w3) \<Rightarrow>
                             (case DeleteTicket_svc fails ticketID w3 of
                                (Inl err, w4) \<Rightarrow> (Error ''Failed to delete ticket'' 500, w4)
                              | (Inr u', w4) \<Rightarrow>
                                  (Redirect (''/session/'' @ sessionID) 303,
                                   Broadcast sessionID
                                     \<lparr>m_Type = ''ticket-deleted'',
                                      m_Data = TicketIDData ticketID\<rparr> w4)))))))"

definition UpdateTicket ::
  "GoLib \<Rightarrow> storage_op set \<Rightarrow> Request \<Rightarrow> World \<Rightarrow> Response \<times> World" where
  "UpdateTicket lib fails r w =
     (case r_user r of
        None \<Rightarrow> (Error ''Unauthorized'' 401, w)
      | Some user \<Rightarrow>
          (let sessionID = r_sessionID r;
               ticketIDStr = r_ticketID r
           in case Atoi lib ticketIDStr of
             None \<Rightarrow> (Error ''Invalid ticket ID'' 400, w)
           | Some ticketID \<Rightarrow>
          (case GetSessionByID fails sessionID w of
             (Inl err, w1) \<Rightarrow> (Error ''Failed to get session'' 500, w1)
           | (Inr None, w1) \<Rightarrow> (Error ''Session not found'' 404, w1)
           | (Inr (Some session), w1) \<Rightarrow>
               if s_OwnerID session \<noteq> u_ID user
               then (Error ''Only session owner can update tickets'' 403, w1)
               else
                 (case GetTicketByID fails ticketID w1 of
                    (Inl err, w2) \<Rightarrow> (Error ''Failed to get ticket'' 500, w2)
                  | (Inr None, w2) \<Rightarrow> (Error ''Ticket not found'' 404, w2)
                  | (Inr (Some ticket0), w2) \<Rightarrow>
                      if t_SessionID ticket0 \<noteq> sessionID
                      then (Error ''Ticket does not belong to this session'' 400, w2)
                      else
                        (let title = r_title r;
                             description = r_description r;
                             ticket1 = (if title \<noteq> [] then ticket0\<lparr>t_Title := title\<rparr>
                                        else ticket0);
                             ticket2 = ticket1\<lparr>t_Description := description\<rparr>;
                             estimateStr = r_final_estimate r;
                             ticket = (if estimateStr \<noteq> [] then
                                         (case Atoi lib estimateStr of
                                            Some estimate \<Rightarrow>
                                              ticket2\<lparr>t_FinalEstimate := Some estimate\<rparr>
                                          | None \<Rightarrow> ticket2)
                                       else ticket2)
                         in case UpdateTicket_svc fails ticket w2 of
                              (Inl err, w3) \<Rightarrow> (Error ''Failed to update ticket'' 500, w3)
                            | (Inr u, w3) \<Rightarrow>
                                (Redirect (''/session/'' @ sessionID) 303,
                                 Broadcast sessionID
                                   \<lparr>m_Type = ''ticket-updated'',
                                    m_Data = TicketData (Some ticket)\<rparr> w3))))))"

text \<open>\<open>DeleteSession\<close> hands the session-ended message to the hub before it deletes (the
  source says so: "Broadcast session end to all participants before deletion").\<close>

definition DeleteSession ::
  "storage_op set \<Rightarrow> Request \<Rightarrow> World \<Rightarrow> Response \<times> World" where
  "DeleteSession fails r w =
     (case r_user r of
        None \<Rightarrow> (Error ''Unauthorized'' 401, w)
      | Some user \<Rightarrow>
          (let sessionID = r_sessionID r in
           case GetSessionByID fails sessionID w of
             (Inl err, w1) \<Rightarrow> (Error ''Failed to get session'' 500, w1)
           | (Inr None, w1) \<Rightarrow> (Error ''Session not found'' 404, w1)
           | (Inr (Some session), w1) \<Rightarrow>
               if s_OwnerID session \<noteq> u_ID user
               then (Error ''Only session owner can delete the session'' 403, w1)
               else
                 (let w2 = Broadcast sessionID
                             \<lparr>m_Type = ''session-ended'',
                              m_Data = MessageData ''Session has been ended by the owner''\<rparr> w1
                  in case DeleteSession_svc fails sessionID w2 of
                       (Inl err, w3) \<Rightarrow> (Error ''Failed to delete session'' 500, w3)
                     | (Inr u, w3) \<Rightarrow> (WriteHeader 204, w3))))"

section \<open>A concrete library and a concrete session\<close>

text \<open>An instance of the library parameters for ASCII input without surrounding blanks
  or HTML characters: trimming and escaping change nothing there, \<open>Atoi\<close> reads an
  optional sign and decimal digits within 64 bits, and the title pattern
  \<open>^.{1,200}$\<close> accepts 1 to 200 characters with no line feed.\<close>

definition digit_val :: "char \<Rightarrow> int option" where
  "digit_val = map_of [(CHR ''0'', 0), (CHR ''1'', 1), (CHR ''2'', 2), (CHR ''3'', 3),
     (CHR ''4'', 4), (CHR ''5'', 5), (CHR ''6'', 6), (CHR ''7'', 7), (CHR ''8'', 8),
     (CHR ''9'', 9)]"

fun parse_digits :: "int \<Rightarrow> string \<Rightarrow> int option" where
  "parse_digits acc [] = Some acc"
| "parse_digits acc (c # cs) =
     (case digit_val c of None \<Rightarrow> None | Some d \<Rightarrow> parse_digits (acc * 10 + d) cs)"

definition ascii_Atoi :: "string \<Rightarrow> int option" where
  "ascii_Atoi s =
     (let (neg, ds) = (case s of
                         c # cs \<Rightarrow> if c = CHR ''-'' then (True, cs)
                                   else if c = CHR ''+'' then (False, cs) else (False, s)
                       | [] \<Rightarrow> (False, s))
      in if ds = [] then None
         else (case parse_digits 0 ds of
                 None \<Rightarrow> None
               | Some n \<Rightarrow>
                   (let v = (if neg then - n else n)
                    in if - (2 ^ 63) \<le> v \<and> v < 2 ^ 63 then Some v else None)))"

definition ascii_lib :: GoLib where
  "ascii_lib = \<lparr>TrimSpace = (\<lambda>s. s), EscapeString = (\<lambda>s. s), Atoi = ascii_Atoi,
     ticketTitleRegex_MatchString = (\<lambda>s. 1 \<le> length s \<and> length s \<le> 200 \<and> CHR 0x0A \<notin> set s)\<rparr>"

text \<open>A session \<open>S\<close> owned by \<open>owner\<close> with two tickets and no current ticket, as it is
  after its creation and the creation of the tickets, and two more users.\<close>

definition ticket1 :: Ticket where
  "ticket1 = \<lparr>t_ID = 1, t_SessionID = ''S'', t_Title = ''T1'', t_Description = [],
     t_FinalEstimate = None, t_Position = 1, t_Votes = []\<rparr>"

definition ticket2 :: Ticket where
  "ticket2 = \<lparr>t_ID = 2, t_SessionID = ''S'', t_Title = ''T2'', t_Description = [],
     t_FinalEstimate = None, t_Position = 2, t_Votes = []\<rparr>"

definition session_row :: Session where
  "session_row = \<lparr>s_ID = ''S'', s_Name = ''Sprint'', s_OwnerID = ''owner'',
     s_CurrentTicketID = None, s_IsVotingActive = False, s_UpdatedAt = 0,
     s_Tickets = [], s_CurrentTicket = None\<rparr>"

definition world0 :: World where
  "world0 = \<lparr>db = \<lparr>users = [\<lparr>u_ID = ''owner'', u_Username = ''Olga''\<rparr>,
                            \<lparr>u_ID = ''a'', u_Username = ''Ann''\<rparr>,
                            \<lparr>u_ID = ''b'', u_Username = ''Bob''\<rparr>],
                   sessions = [session_row], tickets = [ticket1, ticket2], votes = [],
                   ticket_seq = 2, vote_seq = 0\<rparr>,
             log = []\<rparr>"

definition request :: "string \<Rightarrow> nat \<Rightarrow> Request" where
  "request uid now = \<lparr>r_user = Some \<lparr>u_ID = uid, u_Username = uid\<rparr>, r_sessionID = ''S'',
     r_ticketID = [], r_vote = [], r_title = [], r_description = [],
     r_final_estimate = [], r_HX_Request = [], r_now = now\<rparr>"

section \<open>Channels\<close>

text \<open>
  A buffered Go channel of messages: the queue, its capacity, and whether it is closed.
  Channels are shared between the registry and the connection's own goroutines, so they
  live in a store and a client holds a reference. A send in a \<open>select\<close> with a
  \<open>default\<close> (or a timeout) branch goes through when the buffer has room, takes the other
  branch when it is full, and panics on a closed channel; closing twice panics.
\<close>

record Chan =
  ch_buf :: "SSEMessage list"
  ch_cap :: nat
  ch_closed :: bool

definition make_chan :: "nat \<Rightarrow> Chan" where
  "make_chan n = \<lparr>ch_buf = [], ch_cap = n, ch_closed = False\<rparr>"

definition chan_full :: "Chan \<Rightarrow> bool" where
  "chan_full ch = (length (ch_buf ch) \<ge> ch_cap ch)"

definition chan_push :: "SSEMessage \<Rightarrow> Chan \<Rightarrow> Chan" where
  "chan_push m ch = ch\<lparr>ch_buf := ch_buf ch @ [m]\<rparr>"

definition chan_close :: "Chan \<Rightarrow> go_panic + Chan" where
  "chan_close ch = (if ch_closed ch then Inl CloseOfClosedChannel
                    else Inr (ch\<lparr>ch_closed := True\<rparr>))"

section \<open>The WebSocket hub (internal/services/websocket.go)\<close>

record WSClient =
  ws_ID :: string
  ws_SessionID :: string
  ws_UserID :: string
  ws_Send :: nat

record BroadcastMessage =
  bm_SessionID :: string
  bm_Message :: SSEMessage

text \<open>The \<open>clients\<close> map as an association list with one entry per key, the channel
  store, and the next unused channel reference.\<close>

record WSService =
  ws_clients :: "(string \<times> WSClient) list"
  ws_chans :: "nat \<Rightarrow> Chan"
  ws_next :: nat

definition NewWSService :: WSService where
  "NewWSService = \<lparr>ws_clients = [], ws_chans = (\<lambda>r. make_chan 0), ws_next = 0\<rparr>"

text \<open>The three cases of the \<open>select\<close> in \<open>Run\<close>.\<close>

definition Run_register :: "WSClient \<Rightarrow> WSService \<Rightarrow> WSService" where
  "Run_register client s = s\<lparr>ws_clients := AList.update (ws_ID client) client (ws_clients s)\<rparr>"

definition Run_unregister :: "WSClient \<Rightarrow> WSService \<Rightarrow> go_panic + WSService" where
  "Run_unregister client s =
     (case map_of (ws_clients s) (ws_ID client) of
        None \<Rightarrow> Inr s
      | Some registered \<Rightarrow>
          (case chan_close (ws_chans s (ws_Send client)) of
             Inl p \<Rightarrow> Inl p
           | Inr ch \<Rightarrow>
               Inr (s\<lparr>ws_clients := AList.delete (ws_ID client) (ws_clients s),
                      ws_chans := (ws_chans s)(ws_Send client := ch)\<rparr>)))"

text \<open>The range loop of the broadcast case, over the keys the map has when the loop
  starts; a key deleted meanwhile is not visited. A full queue takes the \<open>default\<close> branch:
  the client is deleted from the map and its channel closed.\<close>

fun broadcast_loop :: "BroadcastMessage \<Rightarrow> string list \<Rightarrow> WSService \<Rightarrow> go_panic + WSService" where
  "broadcast_loop message [] s = Inr s"
| "broadcast_loop message (k # ks) s =
     (case map_of (ws_clients s) k of
        None \<Rightarrow> broadcast_loop message ks s
      | Some client \<Rightarrow>
          if ws_SessionID client = bm_SessionID message then
            (let ch = ws_chans s (ws_Send client) in
             if ch_closed ch then Inl SendOnClosedChannel
             else if \<not> chan_full ch then
               broadcast_loop message ks
                 (s\<lparr>ws_chans := (ws_chans s)(ws_Send client := chan_push (bm_Message message) ch)\<rparr>)
             else
               broadcast_loop message ks
                 (s\<lparr>ws_clients := AList.delete (ws_ID client) (ws_clients s),
                    ws_chans := (ws_chans s)(ws_Send client := ch\<lparr>ch_closed := True\<rparr>)\<rparr>))
          else broadcast_loop message ks s)"

definition Run_broadcast :: "BroadcastMessage \<Rightarrow> WSService \<Rightarrow> go_panic + WSService" where
  "Run_broadcast message s = broadcast_loop message (map fst (ws_clients s)) s"

text \<open>\<open>HandleWebSocket\<close>: \<open>upgraded\<close> says whether the upgrade of the connection went
  through. The new client gets the id \<open>sessionID_userID\<close> and a channel of 256 messages,
  and is sent to \<open>Run\<close> for registration; the client is returned for its pumps.\<close>

definition HandleWebSocket ::
  "bool \<Rightarrow> string \<Rightarrow> string \<Rightarrow> WSService \<Rightarrow> WSClient option \<times> WSService" where
  "HandleWebSocket upgraded sessionID userID s =
     (if \<not> upgraded then (None, s)
      else (let clientID = sessionID @ ''_'' @ userID;
                client = \<lparr>ws_ID = clientID, ws_SessionID = sessionID, ws_UserID = userID,
                          ws_Send = ws_next s\<rparr>
            in (Some client,
                Run_register client
                  (s\<lparr>ws_chans := (ws_chans s)(ws_next s := make_chan 256),
                     ws_next := ws_next s + 1\<rparr>))))"

text \<open>\<open>Broadcast\<close> sends the message to \<open>Run\<close>, which handles it in its broadcast case.\<close>

definition WSService_Broadcast :: "string \<Rightarrow> SSEMessage \<Rightarrow> WSService \<Rightarrow> go_panic + WSService" where
  "WSService_Broadcast sessionID message s =
     Run_broadcast \<lparr>bm_SessionID = sessionID, bm_Message = message\<rparr> s"

definition WSService_GetClientCount :: "string \<Rightarrow> WSService \<Rightarrow> nat" where
  "WSService_GetClientCount sessionID s =
     length (filter (\<lambda>(k, client). ws_SessionID client = sessionID) (ws_clients s))"

section \<open>The SSE hub (internal/services/sse.go)\<close>

record SSEClient =
  sse_ID :: string
  sse_SessionID :: string
  sse_UserID :: string
  sse_Channel :: nat

record SSEService =
  sse_clients :: "(string \<times> SSEClient) list"
  sse_chans :: "nat \<Rightarrow> Chan"
  sse_next :: nat

definition NewSSEService :: SSEService where
  "NewSSEService = \<lparr>sse_clients = [], sse_chans = (\<lambda>r. make_chan 0), sse_next = 0\<rparr>"

text \<open>\<open>%d\<close> of \<open>fmt.Sprintf\<close>: the decimal digits of an integer.\<close>

function itoa_nat :: "nat \<Rightarrow> string" where
  "itoa_nat n = (if n < 10 then [''0123456789'' ! n]
                 else itoa_nat (n div 10) @ [''0123456789'' ! (n mod 10)])"
  by pat_completeness auto
termination
  by (relation "measure id") auto

declare itoa_nat.simps [simp del]

definition itoa :: "int \<Rightarrow> string" where
  "itoa i = (if i < 0 then CHR ''-'' # itoa_nat (nat (- i)) else itoa_nat (nat i))"

text \<open>\<open>AddClient\<close>; \<open>nanos\<close> is \<open>time.Now().UnixNano()\<close>.\<close>

definition AddClient ::
  "string \<Rightarrow> string \<Rightarrow> int \<Rightarrow> SSEService \<Rightarrow> SSEClient \<times> SSEService" where
  "AddClient sessionID userID nanos s =
     (let clientID = sessionID @ ''_'' @ userID @ ''_'' @ itoa nanos;
          client = \<lparr>sse_ID = clientID, sse_SessionID = sessionID, sse_UserID = userID,
                    sse_Channel = sse_next s\<rparr>
      in (client,
          s\<lparr>sse_clients := AList.update clientID client (sse_clients s),
            sse_chans := (sse_chans s)(sse_next s := make_chan 10),
            sse_next := sse_next s + 1\<rparr>))"

definition RemoveClient :: "string \<Rightarrow> SSEService \<Rightarrow> go_panic + SSEService" where
  "RemoveClient clientID s =
     (case map_of (sse_clients s) clientID of
        None \<Rightarrow> Inr s
      | Some client \<Rightarrow>
          (case chan_close (sse_chans s (sse_Channel client)) of
             Inl p \<Rightarrow> Inl p
           | Inr ch \<Rightarrow>
               Inr (s\<lparr>sse_chans := (sse_chans s)(sse_Channel client := ch),
                      sse_clients := AList.delete clientID (sse_clients s)\<rparr>)))"

text \<open>The range loop of \<open>Broadcast\<close>. The \<open>select\<close> waits for room in the queue or for
  100 ms; nothing drains the queue while the loop runs, so a full queue takes the timeout
  branch, which skips the client.\<close>

fun sse_broadcast_loop :: "string \<Rightarrow> SSEMessage \<Rightarrow> string list \<Rightarrow> SSEService \<Rightarrow> go_panic + SSEService" where
  "sse_broadcast_loop sessionID message [] s = Inr s"
| "sse_broadcast_loop sessionID message (k # ks) s =
     (case map_of (sse_clients s) k of
        None \<Rightarrow> sse_broadcast_loop sessionID message ks s
      | Some client \<Rightarrow>
          if sse_SessionID client = sessionID then
            (let ch = sse_chans s (sse_Channel client) in
             if ch_closed ch then Inl SendOnClosedChannel
             else if \<not> chan_full ch then
               sse_broadcast_loop sessionID message ks
                 (s\<lparr>sse_chans := (sse_chans s)(sse_Channel client := chan_push message ch)\<rparr>)
             else sse_broadcast_loop sessionID message ks s)
          else sse_broadcast_loop sessionID message ks s)"

definition SSEService_Broadcast :: "string \<Rightarrow> SSEMessage \<Rightarrow> SSEService \<Rightarrow> go_panic + SSEService" where
  "SSEService_Broadcast sessionID message s =
     sse_broadcast_loop sessionID message (map fst (sse_clients s)) s"

section \<open>Reading the effect log\<close>

text \<open>The messages handed to the hub, in order; whether some storage call failed; and
  which storage services write.\<close>

fun emitted :: "effect list \<Rightarrow> (string \<times> SSEMessage) list" where
  "emitted [] = []"
| "emitted (Call op ok # l) = emitted l"
| "emitted (Emit sessionID message # l) = (sessionID, message) # emitted l"

fun storage_failed :: "effect list \<Rightarrow> bool" where
  "storage_failed [] = False"
| "storage_failed (Call op ok # l) = (\<not> ok \<or> storage_failed l)"
| "storage_failed (Emit sessionID message # l) = storage_failed l"

definition is_mutation :: "storage_op \<Rightarrow> bool" where
  "is_mutation op = (op \<in> {OpCreateSession, OpUpdateSession, OpDeleteSession, OpSubmitVote,
     OpClearVotesForTicket, OpCreateTicket, OpUpdateTicket, OpDeleteTicket})"

fun no_write_in :: "effect list \<Rightarrow> bool" where
  "no_write_in [] = True"
| "no_write_in (Call op ok # l) = (\<not> is_mutation op \<and> no_write_in l)"
| "no_write_in (Emit sessionID message # l) = no_write_in l"

text \<open>\<open>emit_after_apply applied l\<close>: every message in \<open>l\<close> comes after a write that
  succeeded (\<open>applied\<close> says whether one came before \<open>l\<close>) and no write follows it.\<close>

fun emit_after_apply :: "bool \<Rightarrow> effect list \<Rightarrow> bool" where
  "emit_after_apply applied [] = True"
| "emit_after_apply applied (Call op ok # l) =
     emit_after_apply (applied \<or> (ok \<and> is_mutation op)) l"
| "emit_after_apply applied (Emit sessionID message # l) =
     (applied \<and> no_write_in l \<and> emit_after_apply applied l)"

definition emit_implies_applied :: "effect list \<Rightarrow> bool" where
  "emit_implies_applied l =
     ((storage_failed l \<longrightarrow> emitted l = []) \<and> emit_after_apply False l)"

section \<open>More concrete states\<close>

text \<open>The session with its second and last ticket current, and with its first ticket
  current, voting not started.\<close>

definition world_T2 :: World where
  "world_T2 = world0\<lparr>db := (db world0)\<lparr>sessions := [session_row\<lparr>s_CurrentTicketID := Some 2\<rparr>]\<rparr>\<rparr>"

definition world_T1 :: World where
  "world_T1 = world0\<lparr>db := (db world0)\<lparr>sessions := [session_row\<lparr>s_CurrentTicketID := Some 1\<rparr>]\<rparr>\<rparr>"

section \<open>Reachable states\<close>

text \<open>
  The states the handlers can produce: from a database without sessions, sessions are
  created by \<open>CreateSession\<close>, the users table changes as UserService maintains it, and
  any handler runs with any request, any library behaviour and any storage failures.
\<close>

inductive reachable :: "World \<Rightarrow> bool" where
  r_init: "sessions (db w) = [] \<Longrightarrow> reachable w"
| r_users: "reachable w \<Longrightarrow> reachable (w\<lparr>db := (db w)\<lparr>users := us\<rparr>\<rparr>)"
| r_create_session:
    "reachable w \<Longrightarrow> reachable (snd (CreateSession_svc fails sessionID now name ownerID w))"
| r_select: "reachable w \<Longrightarrow> reachable (snd (SelectTicket lib fails r w))"
| r_start: "reachable w \<Longrightarrow> reachable (snd (StartVoting fails r w))"
| r_end: "reachable w \<Longrightarrow> reachable (snd (EndVoting fails r w))"
| r_next: "reachable w \<Longrightarrow> reachable (snd (NextTicket fails r w))"
| r_vote: "reachable w \<Longrightarrow> reachable (snd (SubmitVote lib fails r w))"
| r_create_ticket: "reachable w \<Longrightarrow> reachable (snd (CreateTicket lib fails r w))"
| r_update_ticket: "reachable w \<Longrightarrow> reachable (snd (UpdateTicket lib fails r w))"
| r_delete_ticket: "reachable w \<Longrightarrow> reachable (snd (DeleteTicket lib fails r w))"
| r_delete_session: "reachable w \<Longrightarrow> reachable (snd (DeleteSession fails r w))"

definition voting_implies_ticket :: "DB \<Rightarrow> bool" where
  "voting_implies_ticket d =
     (\<forall>s \<in> set (sessions d). s_IsVotingActive s \<longrightarrow> s_CurrentTicketID s \<noteq> None)"

text \<open>Whether a request left the database and the messages handed to the hub as they
  were.\<close>

definition unchanged :: "World \<Rightarrow> World \<Rightarrow> bool" where
  "unchanged w w' = (db w' = db w \<and> emitted (log w') = emitted (log w))"

section \<open>A round of voting\<close>

text \<open>The vote requests of a round, handled one after the other, and what the claim
  expects of them: for each user the value of the last request of that user.\<close>

fun submit_votes :: "GoLib \<Rightarrow> storage_op set \<Rightarrow> Request list \<Rightarrow> World \<Rightarrow> World" where
  "submit_votes lib fails [] w = w"
| "submit_votes lib fails (r # rs) w = submit_votes lib fails rs (snd (SubmitVote lib fails r w))"

fun latest_votes :: "GoLib \<Rightarrow> Request list \<Rightarrow> (string \<rightharpoonup> string) \<Rightarrow> (string \<rightharpoonup> string)" where
  "latest_votes lib [] m = m"
| "latest_votes lib (r # rs) m =
     latest_votes lib rs
       (case r_user r of None \<Rightarrow> m | Some u \<Rightarrow> m(u_ID u \<mapsto> SanitizeInput lib (r_vote r)))"

definition tally :: "Vote list \<Rightarrow> (string \<rightharpoonup> string)" where
  "tally vs = map_of (map (\<lambda>v. (v_UserID v, v_VoteValue v)) vs)"

definition votes_for :: "DB \<Rightarrow> int \<Rightarrow> Vote list" where
  "votes_for d ticketID = filter (\<lambda>v. v_TicketID v = ticketID) (votes d)"

text \<open>The id of the ticket that \<open>GetSessionByID\<close> loads as \<open>CurrentTicket\<close> of a session.\<close>

definition current_ticket_id :: "DB \<Rightarrow> string \<Rightarrow> int option" where
  "current_ticket_id d sessionID =
     (case find (\<lambda>s. s_ID s = sessionID) (sessions d) of
        None \<Rightarrow> None
      | Some row \<Rightarrow> map_option t_ID (s_CurrentTicket (loadSession d row)))"

text \<open>The session as the handlers build it: created, ticket 1 selected, voting started.\<close>

definition world_created :: World where
  "world_created =
     snd (CreateSession_svc {} ''S'' 0 ''Sprint'' ''owner''
            (world0\<lparr>db := (db world0)\<lparr>sessions := []\<rparr>\<rparr>))"

definition world_voting :: World where
  "world_voting =
     snd (StartVoting {} (request ''owner'' 6)
            (snd (SelectTicket ascii_lib {} ((request ''owner'' 5)\<lparr>r_ticketID := ''1''\<rparr>)
                    world_created)))"

text \<open>Ticket 1 current with a vote of \<open>b\<close> left from an earlier round, and the vote
  requests of a new round: \<open>a\<close> votes 5, \<open>b\<close> votes 8, \<open>a\<close> changes to 3.\<close>

definition world_round :: World where
  "world_round =
     world_T1\<lparr>db := (db world_T1)\<lparr>
       votes := [\<lparr>v_ID = 1, v_TicketID = 1, v_UserID = ''b'', v_VoteValue = ''13'',
                  v_CreatedAt = 2, v_User = None\<rparr>],
       vote_seq := 1\<rparr>\<rparr>"

definition round_votes :: "Request list" where
  "round_votes = [(request ''a'' 7)\<lparr>r_vote := ''5''\<rparr>, (request ''b'' 8)\<lparr>r_vote := ''8''\<rparr>,
                  (request ''a'' 9)\<lparr>r_vote := ''3''\<rparr>]"

section \<open>Registries as the hubs build them\<close>

text \<open>
  What \<open>HandleWebSocket\<close> and \<open>AddClient\<close> establish: one entry per key, every client
  with a channel of its own that was allocated and is not closed, and in the WebSocket
  registry every client stored under its own id.
\<close>

definition ws_wellformed :: "WSService \<Rightarrow> bool" where
  "ws_wellformed s =
     (distinct (map fst (ws_clients s))
      \<and> distinct (map (ws_Send \<circ> snd) (ws_clients s))
      \<and> (\<forall>(k, c) \<in> set (ws_clients s).
            ws_ID c = k \<and> \<not> ch_closed (ws_chans s (ws_Send c)) \<and> ws_Send c < ws_next s))"

definition sse_wellformed :: "SSEService \<Rightarrow> bool" where
  "sse_wellformed s =
     (distinct (map fst (sse_clients s))
      \<and> distinct (map (sse_Channel \<circ> snd) (sse_clients s))
      \<and> (\<forall>(k, c) \<in> set (sse_clients s).
            \<not> ch_closed (sse_chans s (sse_Channel c)) \<and> sse_Channel c < sse_next s))"

text \<open>What a broadcast does to the channel of a client of the session: the message is
  queued when there is room; on a full queue the WebSocket hub closes the channel (and
  drops the client), the SSE hub leaves the channel as it is.\<close>

definition ws_deliver :: "SSEMessage \<Rightarrow> Chan \<Rightarrow> Chan" where
  "ws_deliver m ch = (if chan_full ch then ch\<lparr>ch_closed := True\<rparr> else chan_push m ch)"

definition sse_deliver :: "SSEMessage \<Rightarrow> Chan \<Rightarrow> Chan" where
  "sse_deliver m ch = (if chan_full ch then ch else chan_push m ch)"

section \<open>Concrete registries\<close>

definition msg0 :: SSEMessage where
  "msg0 = \<lparr>m_Type = ''voting-started'', m_Data = TicketData None\<rparr>"

text \<open>Two tabs of user \<open>a\<close> in session \<open>S\<close>, connected one after the other.\<close>

definition two_tabs :: WSService where
  "two_tabs = snd (HandleWebSocket True ''S'' ''a''
                     (snd (HandleWebSocket True ''S'' ''a'' NewWSService)))"

text \<open>Users \<open>a\<close> and \<open>b\<close> connected to session \<open>S\<close>, the queue of \<open>a\<close> full.\<close>

definition ws_busy :: WSService where
  "ws_busy =
     (let s = snd (HandleWebSocket True ''S'' ''b'' (snd (HandleWebSocket True ''S'' ''a'' NewWSService)))
      in s\<lparr>ws_chans := (ws_chans s)(0 := \<lparr>ch_buf = replicate 256 msg0, ch_cap = 256,
                                            ch_closed = False\<rparr>)\<rparr>)"

text \<open>The first connection of user \<open>a\<close> to session \<open>S\<close> on a new hub, and the hub
  after it; \<open>broadcast_times\<close> is a caller broadcasting \<open>n\<close> times with nothing read
  from the queues in between.\<close>

definition tab_a :: WSClient where
  "tab_a = \<lparr>ws_ID = ''S_a'', ws_SessionID = ''S'', ws_UserID = ''a'', ws_Send = 0\<rparr>"

definition ws_one :: WSService where
  "ws_one = snd (HandleWebSocket True ''S'' ''a'' NewWSService)"

fun broadcast_times :: "nat \<Rightarrow> string \<Rightarrow> SSEMessage \<Rightarrow> WSService \<Rightarrow> go_panic + WSService" where
  "broadcast_times 0 sessionID message s = Inr s"
| "broadcast_times (Suc n) sessionID message s =
     (case WSService_Broadcast sessionID message s of
        Inl p \<Rightarrow> Inl p
      | Inr s' \<Rightarrow> broadcast_times n sessionID message s')"

definition sse_a :: SSEClient where
  "sse_a = \<lparr>sse_ID = ''S_a_1000'', sse_SessionID = ''S'', sse_UserID = ''a'', sse_Channel = 0\<rparr>"

definition sse_b :: SSEClient where
  "sse_b = \<lparr>sse_ID = ''S_b_2000'', sse_SessionID = ''S'', sse_UserID = ''b'', sse_Channel = 1\<rparr>"

definition sse_busy :: SSEService where
  "sse_busy =
     \<lparr>sse_clients = [(''S_a_1000'', sse_a), (''S_b_2000'', sse_b)],
      sse_chans = (\<lambda>r. make_chan 10)(0 := \<lparr>ch_buf = replicate 10 msg0, ch_cap = 10,
                                              ch_closed = False\<rparr>),
      sse_next = 2\<rparr>"

section \<open>Unfolding rules\<close>

lemmas svc_defs = CreateSession_svc_def GetSessionByID_def UpdateSession_def DeleteSession_svc_def SubmitVote_svc_def
  GetVotesForTicket_def ClearVotesForTicket_def CreateTicket_svc_def GetTicketByID_def
  UpdateTicket_svc_def DeleteTicket_svc_def called_def Broadcast_def

lemmas example_defs = request_def world0_def world_T1_def world_T2_def world_round_def
  round_votes_def session_row_def ticket1_def ticket2_def
  loadSession_def getSessionTickets_def getTicketVotes_def List.map_filter_def join_user_def
  update_session_row_def ascii_lib_def ascii_Atoi_def digit_val_def SanitizeInput_def
  ValidateVoteValue_HasErrors_def validVotes_def AllVotingCards_def FibonacciCards_def
  SpecialCards_def

section \<open>Operations in an invalid state\<close>

text \<open>
  C6. The claim: an operation invoked in an invalid state, in particular end-voting by the
  owner when no current ticket is selected, is reported to the caller as a rejected
  operation, with no event, no partial mutation and no crash. \<open>StartVoting\<close> rejects the
  request when \<open>session.CurrentTicket\<close> is nil; \<open>EndVoting\<close> has no such check. On the
  session \<open>S\<close> without a current ticket, the owner's end-voting request writes the session
  row (here its \<open>updated_at\<close>) and then panics on the nil ticket.
\<close>

theorem C6_EndVoting_without_ticket:
  "EndVoting {} (request ''owner'' 5) world0 =
     (Panics NilPointerDereference,
      world0\<lparr>db := (db world0)\<lparr>sessions := [session_row\<lparr>s_UpdatedAt := 5\<rparr>]\<rparr>,
             log := [Call OpGetSessionByID True, Call OpUpdateSession True]\<rparr>)"
  by (simp add: EndVoting_def svc_defs example_defs Let_def)

section \<open>The ticket after the current one\<close>

lemma find_next_None: "cur \<notin> t_ID ` set (butlast ts) \<Longrightarrow> find_next cur ts = None"
  by (induction cur ts rule: find_next.induct) auto

lemma last_id_notin_butlast:
  "distinct (map t_ID ts) \<Longrightarrow> ts \<noteq> [] \<Longrightarrow> t_ID (last ts) \<notin> t_ID ` set (butlast ts)"
proof -
  assume d: "distinct (map t_ID ts)" and ne: "ts \<noteq> []"
  from ne have "ts = butlast ts @ [last ts]" by simp
  then have "distinct (map t_ID (butlast ts @ [last ts]))" using d by simp
  then show ?thesis by (simp del: append_butlast_last_id)
qed

lemma distinct_getSessionTickets:
  "distinct (map t_ID (tickets d)) \<Longrightarrow> distinct (map t_ID (getSessionTickets d sid))"
proof -
  assume d: "distinct (map t_ID (tickets d))"
  let ?f = "filter (\<lambda>t. t_SessionID t = sid) (tickets d)"
  have "distinct (map t_ID ?f)" using d by (rule distinct_map_filter)
  then have "distinct ?f" and "inj_on t_ID (set ?f)" by (auto simp: distinct_map)
  then have "distinct (map t_ID (sort_key t_Position ?f))" by (simp add: distinct_map)
  moreover have "map t_ID (getSessionTickets d sid) = map t_ID (sort_key t_Position ?f)"
    by (simp add: getSessionTickets_def comp_def)
  ultimately show ?thesis by simp
qed

lemma next_at_end:
  assumes "distinct (map t_ID ts)"
    and "ts = [] \<or> cur = Some (t_ID (last ts))"
  shows "(case (case cur of None \<Rightarrow> None | Some tid \<Rightarrow> find (\<lambda>t. t_ID t = tid) ts) of
            None \<Rightarrow> (case ts of [] \<Rightarrow> None | t # ts' \<Rightarrow> Some t)
          | Some currentTicket \<Rightarrow> find_next (t_ID currentTicket) ts) = None"
proof (cases "ts = []")
  case True
  then show ?thesis by (simp split: option.splits)
next
  case False
  with assms have cur: "cur = Some (t_ID (last ts))" by simp
  have "last ts \<in> set ts" using False by simp
  then obtain t where f: "find (\<lambda>t. t_ID t = t_ID (last ts)) ts = Some t"
    by (cases "find (\<lambda>t. t_ID t = t_ID (last ts)) ts") (auto simp: find_None_iff)
  then have "t_ID t = t_ID (last ts)" by (auto simp: find_Some_iff)
  moreover have "find_next (t_ID (last ts)) ts = None"
    using assms(1) False by (intro find_next_None last_id_notin_butlast)
  ultimately show ?thesis using cur f by simp
qed

section \<open>Loading a session\<close>

lemma loadSession_fields:
  "s_ID (loadSession d row) = s_ID row"
  "s_Name (loadSession d row) = s_Name row"
  "s_OwnerID (loadSession d row) = s_OwnerID row"
  "s_CurrentTicketID (loadSession d row) = s_CurrentTicketID row"
  "s_IsVotingActive (loadSession d row) = s_IsVotingActive row"
  by (simp_all add: loadSession_def Let_def)

lemma loadSession_tickets:
  "s_Tickets (loadSession d row) = getSessionTickets d (s_ID row)"
  "s_CurrentTicket (loadSession d row) =
     (case s_CurrentTicketID row of None \<Rightarrow> None
      | Some tid \<Rightarrow> find (\<lambda>t. t_ID t = tid) (getSessionTickets d (s_ID row)))"
  by (simp_all add: loadSession_def Let_def)

section \<open>Advancing past the last ticket\<close>

text \<open>
  C10. When the owner invokes advance-ticket and the current ticket is the last ticket of
  the session's ordered list (or the list is empty), the session's current ticket pointer
  is set to null and the voting flag to false, and a ticket-changed event with a null
  ticket is still broadcast. (Ticket ids are the primary key of the tickets table; the
  storage calls are taken to succeed.)
\<close>

theorem C10_NextTicket_at_end:
  assumes user: "r_user r = Some user"
    and ok: "OpGetSessionByID \<notin> fails" "OpUpdateSession \<notin> fails"
    and row: "find (\<lambda>s. s_ID s = r_sessionID r) (sessions (db w)) = Some row"
    and owner: "s_OwnerID row = u_ID user"
    and pk: "distinct (map t_ID (tickets (db w)))"
    and last: "getSessionTickets (db w) (r_sessionID r) = []
               \<or> s_CurrentTicketID row = Some (t_ID (last (getSessionTickets (db w) (r_sessionID r))))"
  shows "fst (NextTicket fails r w) = Redirect (''/session/'' @ r_sessionID r) 303
       \<and> (\<forall>s \<in> set (sessions (db (snd (NextTicket fails r w)))).
            s_ID s = r_sessionID r \<longrightarrow> s_CurrentTicketID s = None \<and> \<not> s_IsVotingActive s)
       \<and> log (snd (NextTicket fails r w)) =
           log w @ [Call OpGetSessionByID True, Call OpUpdateSession True,
                    Emit (r_sessionID r) \<lparr>m_Type = ''ticket-changed'', m_Data = TicketData None\<rparr>]"
proof -
  let ?s = "loadSession (db w) row"
  from row have id: "s_ID row = r_sessionID r" by (auto simp: find_Some_iff)
  have "distinct (map t_ID (getSessionTickets (db w) (r_sessionID r)))"
    using pk by (rule distinct_getSessionTickets)
  from next_at_end[OF this last]
  have nx: "(case s_CurrentTicket ?s of
               None \<Rightarrow> (case s_Tickets ?s of [] \<Rightarrow> None | t # ts \<Rightarrow> Some t)
             | Some currentTicket \<Rightarrow> find_next (t_ID currentTicket) (s_Tickets ?s)) = None"
    by (simp add: loadSession_tickets id cong: option.case_cong)
  have get: "GetSessionByID fails (r_sessionID r) w = (Inr (Some ?s), called OpGetSessionByID True w)"
    using ok row by (simp add: GetSessionByID_def)
  show ?thesis
    using user ok(2) owner id
    by (auto simp add: NextTicket_def get nx Let_def UpdateSession_def called_def Broadcast_def
        update_session_row_def loadSession_fields)
qed


theorem C10_witness:
  "fst (NextTicket {} (request ''owner'' 7) world_T2) = Redirect ''/session/S'' 303
   \<and> map s_CurrentTicketID (sessions (db (snd (NextTicket {} (request ''owner'' 7) world_T2))))
       = [None]
   \<and> map s_IsVotingActive (sessions (db (snd (NextTicket {} (request ''owner'' 7) world_T2))))
       = [False]
   \<and> log (snd (NextTicket {} (request ''owner'' 7) world_T2)) =
       [Call OpGetSessionByID True, Call OpUpdateSession True,
        Emit ''S'' \<lparr>m_Type = ''ticket-changed'', m_Data = TicketData None\<rparr>]"
proof -
  let ?r = "request ''owner'' 7"
  let ?row = "session_row\<lparr>s_CurrentTicketID := Some 2\<rparr>"
  have h1: "r_user ?r = Some \<lparr>u_ID = ''owner'', u_Username = ''owner''\<rparr>"
    by (simp add: request_def)
  have h2: "OpGetSessionByID \<notin> {}" and h3: "OpUpdateSession \<notin> {}" by simp_all
  have h4: "find (\<lambda>s. s_ID s = r_sessionID ?r) (sessions (db world_T2)) = Some ?row"
    by (simp add: example_defs)
  have h5: "s_OwnerID ?row = u_ID \<lparr>u_ID = ''owner'', u_Username = ''owner''\<rparr>"
    by (simp add: example_defs)
  have h6: "distinct (map t_ID (tickets (db world_T2)))"
    by (simp add: example_defs)
  have h7: "getSessionTickets (db world_T2) (r_sessionID ?r) = []
            \<or> s_CurrentTicketID ?row
                = Some (t_ID (last (getSessionTickets (db world_T2) (r_sessionID ?r))))"
    by (simp add: example_defs)
  have l: "log world_T2 = []" and s: "r_sessionID ?r = ''S''" by (simp_all add: example_defs)
  have m: "map s_ID (sessions (db (snd (NextTicket {} ?r world_T2)))) = [''S'']"
    by (simp add: NextTicket_def svc_defs example_defs Let_def)
  then obtain x where x: "sessions (db (snd (NextTicket {} ?r world_T2))) = [x]" by auto
  show ?thesis
    using C10_NextTicket_at_end [OF h1 h2 h3 h4 h5 h6 h7] m by (simp add: l s x)
qed

section \<open>Reading a session\<close>

lemma emitted_append: "emitted (a @ b) = emitted a @ emitted b"
  by (induction a rule: emitted.induct) simp_all

lemma GetSessionByID_found:
  "OpGetSessionByID \<notin> fails \<Longrightarrow> find (\<lambda>s. s_ID s = sid) (sessions (db w)) = Some row \<Longrightarrow>
   GetSessionByID fails sid w = (Inr (Some (loadSession (db w) row)), called OpGetSessionByID True w)"
  by (simp add: GetSessionByID_def)

section \<open>When a vote is accepted\<close>

text \<open>
  C2, the claim: vote submission succeeds exactly when the ticket-within-session state is
  Voting or Reviewing, and is rejected in Idle and in Selected. The handler only asks for a
  current ticket ("Only prevent voting if no current ticket is selected"): in the state
  Selected, right after the owner selected ticket 1 and before any start-voting, the vote
  of user \<open>a\<close> is accepted.
\<close>

theorem C2_counterexample:
  "fst (SubmitVote ascii_lib {} ((request ''a'' 6)\<lparr>r_vote := ''5''\<rparr>)
         (snd (SelectTicket ascii_lib {} ((request ''owner'' 5)\<lparr>r_ticketID := ''1''\<rparr>) world0)))
     = WriteHeader 200"
  by (simp add: SubmitVote_def SelectTicket_def svc_defs example_defs Let_def)

text \<open>
  C2 as amended: a vote with a valid card value, with storage working, succeeds exactly
  when the session has a current ticket (Selected, Voting or Reviewing; the voting flag is
  not read) and is rejected with "No active ticket" when it has none (Idle).
\<close>

theorem C2_SubmitVote_needs_only_a_current_ticket:
  assumes user: "r_user r = Some user"
    and ok: "OpGetSessionByID \<notin> fails" "OpSubmitVote \<notin> fails"
    and row: "find (\<lambda>s. s_ID s = r_sessionID r) (sessions (db w)) = Some row"
    and valid: "SanitizeInput lib (r_vote r) \<in> set validVotes"
               "SanitizeInput lib (r_vote r) \<in> set AllVotingCards"
  shows "fst (SubmitVote lib fails r w) =
           (if s_CurrentTicket (loadSession (db w) row) = None
            then Error ''No active ticket'' 400 else WriteHeader 200)"
  using user ok(2) valid
  by (simp add: SubmitVote_def GetSessionByID_found[OF ok(1) row] Let_def
      ValidateVoteValue_HasErrors_def SubmitVote_svc_def split: option.splits)

theorem C2_witness:
  "fst (SubmitVote ascii_lib {} ((request ''a'' 6)\<lparr>r_vote := ''5''\<rparr>) world0)
     = Error ''No active ticket'' 400"
proof -
  let ?r = "(request ''a'' 6)\<lparr>r_vote := ''5''\<rparr>"
  have h1: "r_user ?r = Some \<lparr>u_ID = ''a'', u_Username = ''a''\<rparr>" by (simp add: request_def)
  have h2: "OpGetSessionByID \<notin> {}" and h3: "OpSubmitVote \<notin> {}" by simp_all
  have h4: "find (\<lambda>s. s_ID s = r_sessionID ?r) (sessions (db world0)) = Some session_row"
    by (simp add: example_defs)
  have h5: "SanitizeInput ascii_lib (r_vote ?r) \<in> set validVotes"
    and h6: "SanitizeInput ascii_lib (r_vote ?r) \<in> set AllVotingCards"
    by (simp_all add: example_defs)
  have c: "s_CurrentTicket (loadSession (db world0) session_row) = None"
    by (simp add: example_defs)
  show ?thesis
    using C2_SubmitVote_needs_only_a_current_ticket [OF h1 h2 h3 h4 h5 h6] by (simp add: c)
qed

section \<open>Requests of a user who is not the owner\<close>

lemma StartVoting_non_owner:
  assumes "r_user r = Some user" "OpGetSessionByID \<notin> fails"
    "find (\<lambda>s. s_ID s = r_sessionID r) (sessions (db w)) = Some row" "s_OwnerID row \<noteq> u_ID user"
  shows "StartVoting fails r w =
           (Error ''Only session owner can start voting'' 403, called OpGetSessionByID True w)"
  using assms(1,4)
  by (simp add: StartVoting_def GetSessionByID_found[OF assms(2,3)] Let_def loadSession_fields)

lemma EndVoting_non_owner:
  assumes "r_user r = Some user" "OpGetSessionByID \<notin> fails"
    "find (\<lambda>s. s_ID s = r_sessionID r) (sessions (db w)) = Some row" "s_OwnerID row \<noteq> u_ID user"
  shows "EndVoting fails r w =
           (Error ''Only session owner can end voting'' 403, called OpGetSessionByID True w)"
  using assms(1,4)
  by (simp add: EndVoting_def GetSessionByID_found[OF assms(2,3)] Let_def loadSession_fields)

lemma NextTicket_non_owner:
  assumes "r_user r = Some user" "OpGetSessionByID \<notin> fails"
    "find (\<lambda>s. s_ID s = r_sessionID r) (sessions (db w)) = Some row" "s_OwnerID row \<noteq> u_ID user"
  shows "NextTicket fails r w =
           (Error ''Only session owner can advance tickets'' 403, called OpGetSessionByID True w)"
  using assms(1,4)
  by (simp add: NextTicket_def GetSessionByID_found[OF assms(2,3)] Let_def loadSession_fields)

lemma SelectTicket_non_owner:
  assumes "r_user r = Some user" "OpGetSessionByID \<notin> fails"
    "find (\<lambda>s. s_ID s = r_sessionID r) (sessions (db w)) = Some row" "s_OwnerID row \<noteq> u_ID user"
  shows "SelectTicket lib fails r w =
           (Error ''Only session owner can select tickets'' 403, called OpGetSessionByID True w)"
  using assms(1,4)
  by (simp add: SelectTicket_def GetSessionByID_found[OF assms(2,3)] Let_def loadSession_fields)

lemma DeleteTicket_non_owner:
  assumes "r_user r = Some user" "OpGetSessionByID \<notin> fails"
    "find (\<lambda>s. s_ID s = r_sessionID r) (sessions (db w)) = Some row" "s_OwnerID row \<noteq> u_ID user"
  shows "DeleteTicket lib fails r w =
           (if Atoi lib (r_ticketID r) = None then (Error ''Invalid ticket ID'' 400, w)
            else (Error ''Only session owner can delete tickets'' 403,
                  called OpGetSessionByID True w))"
  using assms(1,4)
  by (simp add: DeleteTicket_def GetSessionByID_found[OF assms(2,3)] Let_def loadSession_fields
      split: option.splits)

text \<open>
  C4. For a caller whose identity differs from the session owner, start-voting, end-voting,
  advance-ticket, select-ticket and ticket deletion return a rejected-operation result
  (403, or 400 when the ticket id of a deletion does not parse, which is checked first),
  leave the database unchanged and emit no event.
\<close>

theorem C4_non_owner_rejected:
  assumes "r_user r = Some user" "OpGetSessionByID \<notin> fails"
    "find (\<lambda>s. s_ID s = r_sessionID r) (sessions (db w)) = Some row" "s_OwnerID row \<noteq> u_ID user"
  shows "fst (StartVoting fails r w) = Error ''Only session owner can start voting'' 403
       \<and> unchanged w (snd (StartVoting fails r w))
       \<and> fst (EndVoting fails r w) = Error ''Only session owner can end voting'' 403
       \<and> unchanged w (snd (EndVoting fails r w))
       \<and> fst (NextTicket fails r w) = Error ''Only session owner can advance tickets'' 403
       \<and> unchanged w (snd (NextTicket fails r w))
       \<and> fst (SelectTicket lib fails r w) = Error ''Only session owner can select tickets'' 403
       \<and> unchanged w (snd (SelectTicket lib fails r w))
       \<and> fst (DeleteTicket lib fails r w) =
           (if Atoi lib (r_ticketID r) = None then Error ''Invalid ticket ID'' 400
            else Error ''Only session owner can delete tickets'' 403)
       \<and> unchanged w (snd (DeleteTicket lib fails r w))"
  by (simp add: unchanged_def StartVoting_non_owner[OF assms] EndVoting_non_owner[OF assms]
      NextTicket_non_owner[OF assms] SelectTicket_non_owner[OF assms]
      DeleteTicket_non_owner[OF assms] called_def emitted_append)

theorem C4_witness:
  "fst (StartVoting {} ((request ''a'' 6)\<lparr>r_ticketID := ''1''\<rparr>) world_T1)
     = Error ''Only session owner can start voting'' 403
   \<and> db (snd (StartVoting {} ((request ''a'' 6)\<lparr>r_ticketID := ''1''\<rparr>) world_T1)) = db world_T1
   \<and> fst (DeleteTicket ascii_lib {} ((request ''a'' 6)\<lparr>r_ticketID := ''1''\<rparr>) world_T1)
     = Error ''Only session owner can delete tickets'' 403
   \<and> db (snd (DeleteTicket ascii_lib {} ((request ''a'' 6)\<lparr>r_ticketID := ''1''\<rparr>) world_T1))
     = db world_T1
   \<and> emitted (log (snd (DeleteTicket ascii_lib {} ((request ''a'' 6)\<lparr>r_ticketID := ''1''\<rparr>)
        world_T1))) = []"
proof -
  let ?r = "(request ''a'' 6)\<lparr>r_ticketID := ''1''\<rparr>"
  let ?row = "session_row\<lparr>s_CurrentTicketID := Some 1\<rparr>"
  have h1: "r_user ?r = Some \<lparr>u_ID = ''a'', u_Username = ''a''\<rparr>" by (simp add: request_def)
  have h2: "OpGetSessionByID \<notin> {}" by simp
  have h3: "find (\<lambda>s. s_ID s = r_sessionID ?r) (sessions (db world_T1)) = Some ?row"
    by (simp add: example_defs)
  have h4: "s_OwnerID ?row \<noteq> u_ID \<lparr>u_ID = ''a'', u_Username = ''a''\<rparr>"
    by (simp add: example_defs)
  have a: "Atoi ascii_lib ''1'' = Some 1" by (simp add: example_defs)
  have l: "emitted (log world_T1) = []" by (simp add: example_defs)
  show ?thesis
    using C4_non_owner_rejected [OF h1 h2 h3 h4, of ascii_lib] by (simp add: unchanged_def a l)
qed

section \<open>The voting flag and the current ticket\<close>

lemma current_ticket_has_id:
  "s_CurrentTicket (loadSession d row) = Some t \<Longrightarrow> s_CurrentTicketID row \<noteq> None"
  by (auto simp: loadSession_tickets split: option.splits)

lemma called_db [simp]: "db (called op ok w) = db w" by (simp add: called_def)
lemma Broadcast_db [simp]: "db (Broadcast sid m w) = db w" by (simp add: Broadcast_def)

lemma GetSessionByID_cases:
  obtains (fail) "GetSessionByID fails sid w = (Inl DBError, called OpGetSessionByID False w)"
  | (none) "GetSessionByID fails sid w = (Inr None, called OpGetSessionByID True w)"
  | (some) row where "GetSessionByID fails sid w = (Inr (Some (loadSession (db w) row)), called OpGetSessionByID True w)"
      "row \<in> set (sessions (db w))" "s_ID row = sid"
proof (cases "OpGetSessionByID \<in> fails")
  case True then show ?thesis using fail by (simp add: GetSessionByID_def)
next
  case False
  show ?thesis
  proof (cases "find (\<lambda>s. s_ID s = sid) (sessions (db w))")
    case None then show ?thesis using none False by (simp add: GetSessionByID_def)
  next
    case (Some row)
    then have "row \<in> set (sessions (db w))" "s_ID row = sid"
      by (auto simp: find_Some_iff)
    then show ?thesis using some[of row] False Some by (simp add: GetSessionByID_def)
  qed
qed

lemma StartVoting_invariant:
  "voting_implies_ticket (db w) \<Longrightarrow> voting_implies_ticket (db (snd (StartVoting fails r w)))"
  by (cases rule: GetSessionByID_cases[of fails "r_sessionID r" w])
     (auto simp: StartVoting_def Let_def ClearVotesForTicket_def loadSession_fields
        UpdateSession_def voting_implies_ticket_def update_session_row_def
        dest: current_ticket_has_id split: option.splits)

lemma EndVoting_invariant:
  "voting_implies_ticket (db w) \<Longrightarrow> voting_implies_ticket (db (snd (EndVoting fails r w)))"
  by (cases rule: GetSessionByID_cases[of fails "r_sessionID r" w])
     (auto simp: EndVoting_def Let_def GetVotesForTicket_def loadSession_fields
        UpdateSession_def voting_implies_ticket_def update_session_row_def
        split: option.splits)

lemma NextTicket_invariant:
  "voting_implies_ticket (db w) \<Longrightarrow> voting_implies_ticket (db (snd (NextTicket fails r w)))"
  by (cases rule: GetSessionByID_cases[of fails "r_sessionID r" w])
     (auto simp: NextTicket_def Let_def loadSession_fields
        UpdateSession_def voting_implies_ticket_def update_session_row_def
        split: option.splits)

lemma SelectTicket_invariant:
  "voting_implies_ticket (db w) \<Longrightarrow> voting_implies_ticket (db (snd (SelectTicket lib fails r w)))"
  by (cases rule: GetSessionByID_cases[of fails "r_sessionID r" w])
     (auto simp: SelectTicket_def Let_def loadSession_fields
        UpdateSession_def voting_implies_ticket_def update_session_row_def
        split: option.splits)

lemma SubmitVote_invariant:
  "voting_implies_ticket (db w) \<Longrightarrow> voting_implies_ticket (db (snd (SubmitVote lib fails r w)))"
  by (cases rule: GetSessionByID_cases[of fails "r_sessionID r" w])
     (auto simp: SubmitVote_def Let_def loadSession_fields
        SubmitVote_svc_def voting_implies_ticket_def
        split: option.splits)

lemma CreateTicket_invariant:
  "voting_implies_ticket (db w) \<Longrightarrow> voting_implies_ticket (db (snd (CreateTicket lib fails r w)))"
  by (cases rule: GetSessionByID_cases[of fails "r_sessionID r" w])
     (auto simp: CreateTicket_def Let_def loadSession_fields
        CreateTicket_svc_def voting_implies_ticket_def
        split: option.splits)

lemma UpdateTicket_invariant:
  "voting_implies_ticket (db w) \<Longrightarrow> voting_implies_ticket (db (snd (UpdateTicket lib fails r w)))"
  by (cases rule: GetSessionByID_cases[of fails "r_sessionID r" w])
     (auto simp: UpdateTicket_def Let_def loadSession_fields GetTicketByID_def
        UpdateTicket_svc_def voting_implies_ticket_def
        split: option.splits)

lemma DeleteTicket_invariant:
  "voting_implies_ticket (db w) \<Longrightarrow> voting_implies_ticket (db (snd (DeleteTicket lib fails r w)))"
  by (cases rule: GetSessionByID_cases[of fails "r_sessionID r" w])
     (auto simp: DeleteTicket_def Let_def loadSession_fields GetTicketByID_def
        DeleteTicket_svc_def UpdateSession_def voting_implies_ticket_def update_session_row_def
        split: option.splits)

lemma DeleteSession_invariant:
  "voting_implies_ticket (db w) \<Longrightarrow> voting_implies_ticket (db (snd (DeleteSession fails r w)))"
  by (cases rule: GetSessionByID_cases[of fails "r_sessionID r" w])
     (auto simp: DeleteSession_def Let_def loadSession_fields
        DeleteSession_svc_def voting_implies_ticket_def
        split: option.splits)

lemma CreateSession_invariant:
  "voting_implies_ticket (db w) \<Longrightarrow>
   voting_implies_ticket (db (snd (CreateSession_svc fails sid now name owner w)))"
  by (auto simp: CreateSession_svc_def Let_def voting_implies_ticket_def)

text \<open>
  C9. In every state reachable by any sequence of operations (select-ticket, start-voting,
  end-voting, advance-ticket, delete-ticket, and the other handlers), with any requests and
  any storage failures, a session whose voting-active flag is true has a current ticket
  pointer that is not null.
\<close>

theorem C9_voting_implies_current_ticket:
  "reachable w \<Longrightarrow> \<forall>s \<in> set (sessions (db w)). s_IsVotingActive s \<longrightarrow> s_CurrentTicketID s \<noteq> None"
proof -
  assume "reachable w"
  then have "voting_implies_ticket (db w)"
  proof (induction rule: reachable.induct)
    case (r_init w) then show ?case by (simp add: voting_implies_ticket_def)
  next
    case (r_users w us) then show ?case by (simp add: voting_implies_ticket_def)
  qed (simp_all add: CreateSession_invariant SelectTicket_invariant StartVoting_invariant
        EndVoting_invariant NextTicket_invariant SubmitVote_invariant CreateTicket_invariant
        UpdateTicket_invariant DeleteTicket_invariant DeleteSession_invariant)
  then show ?thesis by (simp add: voting_implies_ticket_def)
qed

theorem C9_witness:
  "reachable world_voting
   \<and> map s_IsVotingActive (sessions (db world_voting)) = [True]
   \<and> None \<notin> set (map s_CurrentTicketID (sessions (db world_voting)))"
proof -
  have "reachable (world0\<lparr>db := (db world0)\<lparr>sessions := []\<rparr>\<rparr>)" by (rule r_init) simp
  then have "reachable world_created" unfolding world_created_def by (rule r_create_session)
  then have "reachable (snd (SelectTicket ascii_lib {}
               ((request ''owner'' 5)\<lparr>r_ticketID := ''1''\<rparr>) world_created))"
    by (rule r_select)
  then have r: "reachable world_voting" unfolding world_voting_def by (rule r_start)
  have "map s_IsVotingActive (sessions (db world_voting)) = [True]"
    by (simp add: world_voting_def world_created_def StartVoting_def SelectTicket_def
        svc_defs example_defs Let_def)
  then obtain x where x: "sessions (db world_voting) = [x]" "s_IsVotingActive x" by auto
  with r C9_voting_implies_current_ticket [OF r] show ?thesis by auto
qed

section \<open>Storage before events\<close>

lemmas log_defs = emit_implies_applied_def is_mutation_def svc_defs Let_def

lemma StartVoting_emit: "log w = [] \<Longrightarrow> emit_implies_applied (log (snd (StartVoting fails r w)))"
  by (simp add: StartVoting_def log_defs split: option.splits)

lemma EndVoting_emit: "log w = [] \<Longrightarrow> emit_implies_applied (log (snd (EndVoting fails r w)))"
  by (simp add: EndVoting_def log_defs split: option.splits)

lemma SubmitVote_emit: "log w = [] \<Longrightarrow> emit_implies_applied (log (snd (SubmitVote lib fails r w)))"
  by (simp add: SubmitVote_def log_defs split: option.splits)

lemma NextTicket_emit: "log w = [] \<Longrightarrow> emit_implies_applied (log (snd (NextTicket fails r w)))"
  by (simp add: NextTicket_def log_defs split: option.splits)

lemma SelectTicket_emit: "log w = [] \<Longrightarrow> emit_implies_applied (log (snd (SelectTicket lib fails r w)))"
  by (simp add: SelectTicket_def log_defs split: option.splits)

lemma CreateTicket_emit: "log w = [] \<Longrightarrow> emit_implies_applied (log (snd (CreateTicket lib fails r w)))"
  by (simp add: CreateTicket_def log_defs split: option.splits)

lemma UpdateTicket_emit: "log w = [] \<Longrightarrow> emit_implies_applied (log (snd (UpdateTicket lib fails r w)))"
  by (simp add: UpdateTicket_def log_defs split: option.splits)

lemma DeleteTicket_emit: "log w = [] \<Longrightarrow> emit_implies_applied (log (snd (DeleteTicket lib fails r w)))"
  by (simp add: DeleteTicket_def log_defs split: option.splits)

lemma DeleteSession_log:
  assumes "r_user r = Some user" "OpGetSessionByID \<notin> fails"
    "find (\<lambda>s. s_ID s = r_sessionID r) (sessions (db w)) = Some row" "s_OwnerID row = u_ID user"
    "log w = []"
  shows "log (snd (DeleteSession fails r w)) =
           [Call OpGetSessionByID True,
            Emit (r_sessionID r)
              \<lparr>m_Type = ''session-ended'',
               m_Data = MessageData ''Session has been ended by the owner''\<rparr>,
            Call OpDeleteSession (OpDeleteSession \<notin> fails)]"
  using assms(1,4,5)
  by (simp add: DeleteSession_def GetSessionByID_found[OF assms(2,3)] Let_def loadSession_fields
      DeleteSession_svc_def called_def Broadcast_def)

text \<open>
  C1, the claim: for every mutating operation, session delete included, no event is
  broadcast when the storage step fails, and an event is constructed only after the
  mutation is applied. \<open>DeleteSession\<close> broadcasts first, on purpose ("Broadcast session
  end to all participants before deletion"): when the deletion then fails, the
  session-ended event is out and the database is as it was.
\<close>

theorem C1_counterexample:
  "\<not> emit_implies_applied
       (log (snd (DeleteSession {OpDeleteSession} (request ''owner'' 5) world0)))
   \<and> fst (DeleteSession {OpDeleteSession} (request ''owner'' 5) world0)
       = Error ''Failed to delete session'' 500
   \<and> db (snd (DeleteSession {OpDeleteSession} (request ''owner'' 5) world0)) = db world0
   \<and> log (snd (DeleteSession {OpDeleteSession} (request ''owner'' 5) world0)) =
       [Call OpGetSessionByID True,
        Emit ''S'' \<lparr>m_Type = ''session-ended'',
                   m_Data = MessageData ''Session has been ended by the owner''\<rparr>,
        Call OpDeleteSession False]"
  by (simp add: DeleteSession_def svc_defs example_defs Let_def emit_implies_applied_def)

text \<open>
  C1 as amended: for start-voting, end-voting, submit-vote, advance and select ticket, and
  ticket create, update and delete, no event is broadcast when a storage call fails, and
  an event is broadcast only after a write that succeeded and before no further write.
  Session delete hands its session-ended event to the hub before it calls the deletion,
  whether the deletion then succeeds or not.
\<close>

theorem C1_emit_implies_applied:
  assumes "log w = []"
  shows "emit_implies_applied (log (snd (StartVoting fails r w)))
       \<and> emit_implies_applied (log (snd (EndVoting fails r w)))
       \<and> emit_implies_applied (log (snd (SubmitVote lib fails r w)))
       \<and> emit_implies_applied (log (snd (NextTicket fails r w)))
       \<and> emit_implies_applied (log (snd (SelectTicket lib fails r w)))
       \<and> emit_implies_applied (log (snd (CreateTicket lib fails r w)))
       \<and> emit_implies_applied (log (snd (UpdateTicket lib fails r w)))
       \<and> emit_implies_applied (log (snd (DeleteTicket lib fails r w)))
       \<and> (\<forall>user row. r_user r = Some user \<and> OpGetSessionByID \<notin> fails
             \<and> find (\<lambda>s. s_ID s = r_sessionID r) (sessions (db w)) = Some row
             \<and> s_OwnerID row = u_ID user \<longrightarrow>
           log (snd (DeleteSession fails r w)) =
             [Call OpGetSessionByID True,
              Emit (r_sessionID r)
                \<lparr>m_Type = ''session-ended'',
                 m_Data = MessageData ''Session has been ended by the owner''\<rparr>,
              Call OpDeleteSession (OpDeleteSession \<notin> fails)])"
  using assms
  by (simp add: StartVoting_emit EndVoting_emit SubmitVote_emit NextTicket_emit
      SelectTicket_emit CreateTicket_emit UpdateTicket_emit DeleteTicket_emit DeleteSession_log)

theorem C1_witness:
  "log world_T1 = []
   \<and> emit_implies_applied (log (snd (StartVoting {OpClearVotesForTicket} (request ''owner'' 6) world_T1)))
   \<and> log (snd (StartVoting {OpClearVotesForTicket} (request ''owner'' 6) world_T1)) =
       [Call OpGetSessionByID True, Call OpUpdateSession True, Call OpClearVotesForTicket False]
   \<and> emit_implies_applied (log (snd (EndVoting {} (request ''owner'' 6) world_T1)))
   \<and> emitted (log (snd (EndVoting {} (request ''owner'' 6) world_T1))) =
       [(''S'', \<lparr>m_Type = ''voting-ended'', m_Data = VotingEndedData (Some ticket1) []\<rparr>)]"
proof -
  have h: "log world_T1 = []" by (simp add: example_defs)
  have s: "log (snd (StartVoting {OpClearVotesForTicket} (request ''owner'' 6) world_T1)) =
       [Call OpGetSessionByID True, Call OpUpdateSession True, Call OpClearVotesForTicket False]"
    by (simp add: StartVoting_def svc_defs example_defs Let_def)
  have e: "emitted (log (snd (EndVoting {} (request ''owner'' 6) world_T1))) =
       [(''S'', \<lparr>m_Type = ''voting-ended'', m_Data = VotingEndedData (Some ticket1) []\<rparr>)]"
    by (simp add: EndVoting_def svc_defs example_defs Let_def)
  show ?thesis
    using C1_emit_implies_applied [OF h, of "{OpClearVotesForTicket}" "request ''owner'' 6"]
      C1_emit_implies_applied [OF h, of "{}" "request ''owner'' 6"] h s e
    by simp
qed

section \<open>A round of voting: start, votes, end\<close>

lemma find_id_Some: "map_option t_ID (find (\<lambda>t. t_ID t = k) xs) = (if k \<in> t_ID ` set xs then Some k else None)"
  by (induction xs) auto

lemma getSessionTickets_ids:
  "t_ID ` set (getSessionTickets d sid) = t_ID ` set (filter (\<lambda>t. t_SessionID t = sid) (tickets d))"
  by (auto simp: getSessionTickets_def image_iff)

lemma current_ticket_id_alt:
  "current_ticket_id d sid =
     (case find (\<lambda>s. s_ID s = sid) (sessions d) of None \<Rightarrow> None
      | Some row \<Rightarrow> (case s_CurrentTicketID row of None \<Rightarrow> None
          | Some k \<Rightarrow> if k \<in> t_ID ` set (filter (\<lambda>t. t_SessionID t = sid) (tickets d))
                      then Some k else None))"
proof (cases "find (\<lambda>s. s_ID s = sid) (sessions d)")
  case None then show ?thesis by (simp add: current_ticket_id_def)
next
  case (Some row)
  then have "s_ID row = sid" by (auto simp: find_Some_iff)
  then show ?thesis using Some
    by (simp add: current_ticket_id_def loadSession_tickets find_id_Some getSessionTickets_ids
        split: option.splits)
qed

lemma current_ticket_id_cong:
  "sessions d' = sessions d \<Longrightarrow> tickets d' = tickets d \<Longrightarrow>
   current_ticket_id d' sid = current_ticket_id d sid"
  by (simp add: current_ticket_id_alt cong: option.case_cong)

lemma current_ticket_idD:
  assumes "current_ticket_id d sid = Some tid"
  obtains row t where "find (\<lambda>s. s_ID s = sid) (sessions d) = Some row"
    "s_CurrentTicket (loadSession d row) = Some t" "t_ID t = tid" "s_CurrentTicketID row = Some tid"
proof -
  from assms obtain row where row: "find (\<lambda>s. s_ID s = sid) (sessions d) = Some row"
    by (auto simp: current_ticket_id_def split: option.splits)
  with assms obtain t where t: "s_CurrentTicket (loadSession d row) = Some t" "t_ID t = tid"
    by (auto simp: current_ticket_id_def)
  from assms row have "s_CurrentTicketID row = Some tid"
    by (auto simp: current_ticket_id_alt split: option.splits if_splits)
  with row t that show ?thesis by blast
qed

lemma SubmitVote_step:
  assumes user: "r_user r = Some u"
    and valid: "SanitizeInput lib (r_vote r) \<in> set validVotes"
               "SanitizeInput lib (r_vote r) \<in> set AllVotingCards"
    and cur: "current_ticket_id (db w) (r_sessionID r) = Some tid"
  shows "db (snd (SubmitVote lib {} r w)) =
           (db w)\<lparr>votes := filter (\<lambda>v. \<not> (v_TicketID v = tid \<and> v_UserID v = u_ID u)) (votes (db w))
                      @ [\<lparr>v_ID = vote_seq (db w) + 1, v_TicketID = tid, v_UserID = u_ID u,
                          v_VoteValue = SanitizeInput lib (r_vote r), v_CreatedAt = r_now r,
                          v_User = None\<rparr>],
                  vote_seq := vote_seq (db w) + 1\<rparr>"
proof -
  from cur obtain row t where row: "find (\<lambda>s. s_ID s = r_sessionID r) (sessions (db w)) = Some row"
    and t: "s_CurrentTicket (loadSession (db w) row) = Some t" "t_ID t = tid"
    by (rule current_ticket_idD)
  have ok: "OpGetSessionByID \<notin> {}" by simp
  show ?thesis using user valid t
    by (simp add: SubmitVote_def GetSessionByID_found[OF ok row] Let_def
        ValidateVoteValue_HasErrors_def SubmitVote_svc_def called_def Broadcast_def)
qed

lemma tally_filter:
  "tally (filter (\<lambda>v. v_UserID v \<noteq> u) vs) k = (if k = u then None else tally vs k)"
  by (induction vs) (auto simp: tally_def)

lemma tally_replace:
  assumes "v_UserID new = u"
  shows "tally (filter (\<lambda>v. v_UserID v \<noteq> u) vs @ [new]) = (tally vs)(u \<mapsto> v_VoteValue new)"
proof
  fix k
  have "tally (filter (\<lambda>v. v_UserID v \<noteq> u) vs @ [new]) k =
        (case tally (filter (\<lambda>v. v_UserID v \<noteq> u) vs) k of None \<Rightarrow> [u \<mapsto> v_VoteValue new] k | Some x \<Rightarrow> Some x)"
    using assms by (simp add: tally_def map_add_def)
  then show "tally (filter (\<lambda>v. v_UserID v \<noteq> u) vs @ [new]) k = ((tally vs)(u \<mapsto> v_VoteValue new)) k"
    by (simp add: tally_filter split: option.splits)
qed

lemma distinct_replace:
  assumes "distinct (map v_UserID vs)" "v_UserID new = u"
  shows "distinct (map v_UserID (filter (\<lambda>v. v_UserID v \<noteq> u) vs @ [new]))"
  using assms by (auto simp: distinct_map_filter)

lemma votes_for_after_vote:
  "votes_for (d\<lparr>votes := filter (\<lambda>v. \<not> (v_TicketID v = tid \<and> v_UserID v = u)) (votes d) @ [new],
               vote_seq := n\<rparr>) tid
   = filter (\<lambda>v. v_UserID v \<noteq> u) (votes_for d tid) @ (if v_TicketID new = tid then [new] else [])"
  by (auto simp: votes_for_def intro: filter_cong)

lemma submit_votes_round:
  assumes "\<forall>r \<in> set rs. r_sessionID r = sid
             \<and> (\<exists>u. r_user r = Some u \<and> u_ID u \<in> u_ID ` set (users (db w)))
             \<and> SanitizeInput lib (r_vote r) \<in> set validVotes
             \<and> SanitizeInput lib (r_vote r) \<in> set AllVotingCards"
    and "current_ticket_id (db w) sid = Some tid"
    and "distinct (map v_UserID (votes_for (db w) tid))"
    and "\<forall>v \<in> set (votes_for (db w) tid). v_UserID v \<in> u_ID ` set (users (db w))"
  shows "sessions (db (submit_votes lib {} rs w)) = sessions (db w)
       \<and> tickets (db (submit_votes lib {} rs w)) = tickets (db w)
       \<and> users (db (submit_votes lib {} rs w)) = users (db w)
       \<and> distinct (map v_UserID (votes_for (db (submit_votes lib {} rs w)) tid))
       \<and> (\<forall>v \<in> set (votes_for (db (submit_votes lib {} rs w)) tid).
             v_UserID v \<in> u_ID ` set (users (db w)))
       \<and> tally (votes_for (db (submit_votes lib {} rs w)) tid)
           = latest_votes lib rs (tally (votes_for (db w) tid))"
  using assms
proof (induction rs arbitrary: w)
  case Nil
  then show ?case by simp
next
  case (Cons r rs)
  from Cons.prems(1) obtain u where u: "r_user r = Some u" "u_ID u \<in> u_ID ` set (users (db w))"
    and sid: "r_sessionID r = sid"
    and valid: "SanitizeInput lib (r_vote r) \<in> set validVotes"
               "SanitizeInput lib (r_vote r) \<in> set AllVotingCards"
    by auto
  let ?new = "\<lparr>v_ID = vote_seq (db w) + 1, v_TicketID = tid, v_UserID = u_ID u,
               v_VoteValue = SanitizeInput lib (r_vote r), v_CreatedAt = r_now r,
               v_User = None\<rparr>"
  let ?w1 = "snd (SubmitVote lib {} r w)"
  have step: "db ?w1 = (db w)\<lparr>votes := filter (\<lambda>v. \<not> (v_TicketID v = tid \<and> v_UserID v = u_ID u))
                   (votes (db w)) @ [?new], vote_seq := vote_seq (db w) + 1\<rparr>"
    using SubmitVote_step[OF u(1) valid] Cons.prems(2) sid by simp
  have vf: "votes_for (db ?w1) tid = filter (\<lambda>v. v_UserID v \<noteq> u_ID u) (votes_for (db w) tid) @ [?new]"
    unfolding step votes_for_after_vote by simp
  have same: "sessions (db ?w1) = sessions (db w)" "tickets (db ?w1) = tickets (db w)"
    "users (db ?w1) = users (db w)"
    by (simp_all add: step)
  have p1: "\<forall>r \<in> set rs. r_sessionID r = sid
             \<and> (\<exists>u. r_user r = Some u \<and> u_ID u \<in> u_ID ` set (users (db ?w1)))
             \<and> SanitizeInput lib (r_vote r) \<in> set validVotes
             \<and> SanitizeInput lib (r_vote r) \<in> set AllVotingCards"
    using Cons.prems(1) by (simp add: same)
  have p2: "current_ticket_id (db ?w1) sid = Some tid"
    using Cons.prems(2) current_ticket_id_cong[OF same(1,2)] by simp
  have p3: "distinct (map v_UserID (votes_for (db ?w1) tid))"
    unfolding vf using Cons.prems(3) by (intro distinct_replace) simp_all
  have p4: "\<forall>v \<in> set (votes_for (db ?w1) tid). v_UserID v \<in> u_ID ` set (users (db ?w1))"
    using Cons.prems(4) u(2) by (auto simp: vf same)
  have t: "tally (votes_for (db ?w1) tid)
            = (tally (votes_for (db w) tid))(u_ID u \<mapsto> SanitizeInput lib (r_vote r))"
    unfolding vf by (subst tally_replace) simp_all
  from Cons.IH[OF p1 p2 p3 p4] show ?case
    by (simp add: same t u(1) fun_upd_def)
qed

lemma find_update_session_row:
  "find (\<lambda>s. s_ID s = sid) (map (update_session_row session now) xs)
     = map_option (update_session_row session now) (find (\<lambda>s. s_ID s = sid) xs)"
  by (induction xs) (auto simp: update_session_row_def)

lemma current_ticket_id_update:
  assumes "find (\<lambda>s. s_ID s = sid) (sessions d) = Some row"
    and "s_ID session = sid" "s_CurrentTicketID session = s_CurrentTicketID row"
    and "sessions d' = map (update_session_row session now) (sessions d)"
    and "tickets d' = tickets d"
  shows "current_ticket_id d' sid = current_ticket_id d sid"
proof -
  from assms(1) have id: "s_ID row = sid" by (auto simp: find_Some_iff)
  let ?row' = "update_session_row session now row"
  have f: "find (\<lambda>s. s_ID s = sid) (sessions d') = Some ?row'"
    by (simp add: assms(4) find_update_session_row assms(1))
  have c: "s_CurrentTicketID ?row' = s_CurrentTicketID row"
    by (simp add: update_session_row_def assms(3))
  have "current_ticket_id d' sid =
          (case s_CurrentTicketID row of None \<Rightarrow> None
           | Some k \<Rightarrow> if k \<in> t_ID ` set (filter (\<lambda>t. t_SessionID t = sid) (tickets d))
                       then Some k else None)"
    by (simp add: current_ticket_id_alt f c assms(5) cong: option.case_cong)
  also have "\<dots> = current_ticket_id d sid"
    by (simp add: current_ticket_id_alt assms(1))
  finally show ?thesis .
qed

lemma StartVoting_step:
  assumes user: "r_user r = Some u"
    and row: "find (\<lambda>s. s_ID s = r_sessionID r) (sessions (db w)) = Some row"
    and owner: "s_OwnerID row = u_ID u"
    and cur: "current_ticket_id (db w) (r_sessionID r) = Some tid"
  shows "db (snd (StartVoting {} r w)) =
           (db w)\<lparr>sessions := map (update_session_row ((loadSession (db w) row)\<lparr>s_IsVotingActive := True\<rparr>) (r_now r))
                                (sessions (db w)),
                  votes := filter (\<lambda>v. v_TicketID v \<noteq> tid) (votes (db w))\<rparr>"
proof -
  from cur row obtain t where t: "s_CurrentTicket (loadSession (db w) row) = Some t" "t_ID t = tid"
    by (auto elim!: current_ticket_idD)
  have ok: "OpGetSessionByID \<notin> {}" by simp
  show ?thesis using user owner t
    by (simp add: StartVoting_def GetSessionByID_found[OF ok row] Let_def loadSession_fields
        UpdateSession_def ClearVotesForTicket_def called_def Broadcast_def)
qed

lemma EndVoting_step:
  assumes user: "r_user r = Some u"
    and row: "find (\<lambda>s. s_ID s = r_sessionID r) (sessions (db w)) = Some row"
    and owner: "s_OwnerID row = u_ID u"
    and cur: "current_ticket_id (db w) (r_sessionID r) = Some tid"
  shows "\<exists>tk. t_ID tk = tid
        \<and> EndVoting {} r w =
            (Redirect (''/session/'' @ r_sessionID r) 303,
             \<lparr>db = (db w)\<lparr>sessions := map (update_session_row ((loadSession (db w) row)\<lparr>s_IsVotingActive := False\<rparr>) (r_now r))
                                (sessions (db w))\<rparr>,
              log = log w @ [Call OpGetSessionByID True, Call OpUpdateSession True,
                             Call OpGetVotesForTicket True,
                             Emit (r_sessionID r)
                               \<lparr>m_Type = ''voting-ended'',
                                m_Data = VotingEndedData (Some tk) (getTicketVotes (db w) tid)\<rparr>]\<rparr>)"
proof -
  from cur row obtain t where t: "s_CurrentTicket (loadSession (db w) row) = Some t" "t_ID t = tid"
    by (auto elim!: current_ticket_idD)
  have ok: "OpGetSessionByID \<notin> {}" by simp
  show ?thesis using user owner t
    by (intro exI[of _ t])
       (simp add: EndVoting_def GetSessionByID_found[OF ok row] Let_def loadSession_fields
        UpdateSession_def GetVotesForTicket_def called_def Broadcast_def getTicketVotes_def)
qed

lemma join_user_Some:
  "v_UserID v \<in> u_ID ` set us \<Longrightarrow> \<exists>x. join_user us v = Some (v\<lparr>v_User := x\<rparr>)"
proof -
  assume "v_UserID v \<in> u_ID ` set us"
  then have "find (\<lambda>u. u_ID u = v_UserID v) us \<noteq> None"
    by (auto simp: find_None_iff)
  then show ?thesis by (auto simp: join_user_def)
qed

lemma map_filter_join:
  assumes "\<forall>v \<in> set vs. v_UserID v \<in> u_ID ` set us"
    and "\<And>v x. g (v\<lparr>v_User := x\<rparr>) = g v"
  shows "map g (List.map_filter (join_user us) vs) = map g vs"
  using assms(1)
proof (induction vs)
  case Nil
  then show ?case by (simp add: List.map_filter_simps)
next
  case (Cons v vs)
  then obtain x where "join_user us v = Some (v\<lparr>v_User := x\<rparr>)"
    using join_user_Some[of v us] by auto
  with Cons show ?case by (simp add: List.map_filter_simps assms(2))
qed

lemma tally_sort:
  assumes "distinct (map v_UserID vs)"
  shows "tally (sort_key f vs) = tally vs"
proof -
  let ?g = "\<lambda>v. (v_UserID v, v_VoteValue v)"
  have d: "distinct vs" "inj_on v_UserID (set vs)" using assms by (auto simp: distinct_map)
  have "distinct (map fst (map ?g (sort_key f vs)))"
    using d by (simp add: comp_def distinct_map)
  moreover have "distinct (map fst (map ?g vs))" using assms by (simp add: comp_def)
  moreover have "set (map ?g (sort_key f vs)) = set (map ?g vs)" by simp
  ultimately show ?thesis unfolding tally_def by (simp only: map_of_inject_set)
qed

lemma getTicketVotes_tally:
  assumes "distinct (map v_UserID (votes_for d tid))"
    and "\<forall>v \<in> set (votes_for d tid). v_UserID v \<in> u_ID ` set (users d)"
  shows "tally (getTicketVotes d tid) = tally (votes_for d tid)"
    and "distinct (map v_UserID (getTicketVotes d tid))"
    and "\<forall>v \<in> set (getTicketVotes d tid). v_TicketID v = tid"
proof -
  let ?j = "List.map_filter (join_user (users d)) (votes_for d tid)"
  have g: "getTicketVotes d tid = sort_key v_CreatedAt ?j"
    by (simp add: getTicketVotes_def votes_for_def)
  have u: "map v_UserID ?j = map v_UserID (votes_for d tid)"
    using assms(2) by (rule map_filter_join) simp
  have p: "map (\<lambda>v. (v_UserID v, v_VoteValue v)) ?j
           = map (\<lambda>v. (v_UserID v, v_VoteValue v)) (votes_for d tid)"
    using assms(2) by (rule map_filter_join) simp
  have t: "map v_TicketID ?j = map v_TicketID (votes_for d tid)"
    using assms(2) by (rule map_filter_join) simp
  have dj: "distinct (map v_UserID ?j)" using assms(1) by (simp add: u)
  show "tally (getTicketVotes d tid) = tally (votes_for d tid)"
    unfolding g by (simp add: tally_sort[OF dj]) (simp add: tally_def p)
  from dj have "distinct ?j" "inj_on v_UserID (set ?j)" by (auto simp: distinct_map)
  then show "distinct (map v_UserID (getTicketVotes d tid))"
    unfolding g by (simp add: distinct_map)
  have "set (map v_TicketID (getTicketVotes d tid)) = set (map v_TicketID ?j)"
    unfolding g by simp
  also have "\<dots> \<subseteq> {tid}" unfolding t by (auto simp: votes_for_def)
  finally show "\<forall>v \<in> set (getTicketVotes d tid). v_TicketID v = tid" by auto
qed

text \<open>
  C5. For start-voting, then N submit-vote calls, then end-voting on one ticket (the owner
  starts and ends, the voters have their row in the users table, the values are valid
  cards, storage works): start-voting clears all prior votes of the ticket, and the vote
  list of the voting-ended payload has one vote per user, all for this ticket, with for
  each user the value of the latest submission since the start.
\<close>

theorem C5_round_of_voting:
  assumes owner: "r_user r0 = Some ow" "r_user r1 = Some ow"
    and sid: "r_sessionID r0 = sid" "r_sessionID r1 = sid"
    and row: "find (\<lambda>s. s_ID s = sid) (sessions (db w)) = Some row" "s_OwnerID row = u_ID ow"
    and cur: "current_ticket_id (db w) sid = Some tid"
    and rs: "\<forall>r \<in> set rs. r_sessionID r = sid
               \<and> (\<exists>u. r_user r = Some u \<and> u_ID u \<in> u_ID ` set (users (db w)))
               \<and> SanitizeInput lib (r_vote r) \<in> set validVotes
               \<and> SanitizeInput lib (r_vote r) \<in> set AllVotingCards"
  shows "votes_for (db (snd (StartVoting {} r0 w))) tid = []
       \<and> (\<exists>tk vs.
             t_ID tk = tid
           \<and> fst (EndVoting {} r1 (submit_votes lib {} rs (snd (StartVoting {} r0 w))))
               = Redirect (''/session/'' @ sid) 303
           \<and> emitted (log (snd (EndVoting {} r1 (submit_votes lib {} rs (snd (StartVoting {} r0 w))))))
               = emitted (log (submit_votes lib {} rs (snd (StartVoting {} r0 w))))
                 @ [(sid, \<lparr>m_Type = ''voting-ended'', m_Data = VotingEndedData (Some tk) vs\<rparr>)]
           \<and> distinct (map v_UserID vs)
           \<and> (\<forall>v \<in> set vs. v_TicketID v = tid)
           \<and> tally vs = latest_votes lib rs Map.empty)"
proof -
  let ?w1 = "snd (StartVoting {} r0 w)"
  let ?w2 = "submit_votes lib {} rs ?w1"
  let ?s1 = "(loadSession (db w) row)\<lparr>s_IsVotingActive := True\<rparr>"
  let ?row1 = "update_session_row ?s1 (r_now r0) row"
  from row(1) have id: "s_ID row = sid" by (auto simp: find_Some_iff)
  have d1: "db ?w1 = (db w)\<lparr>sessions := map (update_session_row ?s1 (r_now r0)) (sessions (db w)),
                            votes := filter (\<lambda>v. v_TicketID v \<noteq> tid) (votes (db w))\<rparr>"
    using StartVoting_step[OF owner(1) _ row(2), of w tid] row(1) cur sid(1) by simp
  have cleared: "votes_for (db ?w1) tid = []" by (simp add: d1 votes_for_def)
  have u1: "users (db ?w1) = users (db w)" by (simp add: d1)
  have cur1: "current_ticket_id (db ?w1) sid = Some tid"
    using current_ticket_id_update[OF row(1), of ?s1 "db ?w1" "r_now r0"] cur
    by (simp add: d1 loadSession_fields id)
  have row1: "find (\<lambda>s. s_ID s = sid) (sessions (db ?w1)) = Some ?row1"
    by (simp add: d1 find_update_session_row row(1))
  have own1: "s_OwnerID ?row1 = u_ID ow"
    using row(2) by (simp add: update_session_row_def)
  have rs1: "\<forall>r \<in> set rs. r_sessionID r = sid
               \<and> (\<exists>u. r_user r = Some u \<and> u_ID u \<in> u_ID ` set (users (db ?w1)))
               \<and> SanitizeInput lib (r_vote r) \<in> set validVotes
               \<and> SanitizeInput lib (r_vote r) \<in> set AllVotingCards"
    using rs by (simp add: u1)
  have round: "sessions (db ?w2) = sessions (db ?w1)" "tickets (db ?w2) = tickets (db ?w1)"
    "users (db ?w2) = users (db ?w1)"
    "distinct (map v_UserID (votes_for (db ?w2) tid))"
    "\<forall>v \<in> set (votes_for (db ?w2) tid). v_UserID v \<in> u_ID ` set (users (db ?w1))"
    "tally (votes_for (db ?w2) tid) = latest_votes lib rs (tally (votes_for (db ?w1) tid))"
    using submit_votes_round[OF rs1 cur1] cleared by simp_all
  have cur2: "current_ticket_id (db ?w2) sid = Some tid"
    using current_ticket_id_cong[OF round(1,2)] cur1 by simp
  have row2: "find (\<lambda>s. s_ID s = r_sessionID r1) (sessions (db ?w2)) = Some ?row1"
    using row1 by (simp add: round(1) sid(2))
  from EndVoting_step[OF owner(2) row2 own1] cur2 sid(2)
  obtain tk where tk: "t_ID tk = tid"
    and e: "EndVoting {} r1 ?w2 =
      (Redirect (''/session/'' @ sid) 303,
       \<lparr>db = (db ?w2)\<lparr>sessions := map (update_session_row
                 ((loadSession (db ?w2) ?row1)\<lparr>s_IsVotingActive := False\<rparr>) (r_now r1))
                 (sessions (db ?w2))\<rparr>,
        log = log ?w2 @ [Call OpGetSessionByID True, Call OpUpdateSession True,
                        Call OpGetVotesForTicket True,
                        Emit sid \<lparr>m_Type = ''voting-ended'',
                          m_Data = VotingEndedData (Some tk) (getTicketVotes (db ?w2) tid)\<rparr>]\<rparr>)"
    by auto
  have m: "\<forall>v \<in> set (votes_for (db ?w2) tid). v_UserID v \<in> u_ID ` set (users (db ?w2))"
    using round(5) by (simp add: round(3))
  note g = getTicketVotes_tally[OF round(4) m]
  have "tally (getTicketVotes (db ?w2) tid) = latest_votes lib rs Map.empty"
    using g(1) round(6) by (simp add: cleared tally_def)
  with tk e g(2,3) cleared show ?thesis
    by (intro conjI exI[of _ tk] exI[of _ "getTicketVotes (db ?w2) tid"])
       (simp_all add: emitted_append)
qed

theorem C5_witness:
  "votes_for (db world_round) 1 \<noteq> []
   \<and> votes_for (db (snd (StartVoting {} (request ''owner'' 6) world_round))) 1 = []
   \<and> latest_votes ascii_lib round_votes Map.empty ''a'' = Some ''3''
   \<and> latest_votes ascii_lib round_votes Map.empty ''b'' = Some ''8''
   \<and> (\<exists>tk vs.
         emitted (log (snd (EndVoting {} (request ''owner'' 10)
            (submit_votes ascii_lib {} round_votes
               (snd (StartVoting {} (request ''owner'' 6) world_round))))))
           = emitted (log (submit_votes ascii_lib {} round_votes
               (snd (StartVoting {} (request ''owner'' 6) world_round))))
             @ [(''S'', \<lparr>m_Type = ''voting-ended'', m_Data = VotingEndedData (Some tk) vs\<rparr>)]
         \<and> distinct (map v_UserID vs)
         \<and> tally vs ''a'' = Some ''3'' \<and> tally vs ''b'' = Some ''8''
         \<and> tally vs ''owner'' = None)"
proof -
  let ?row = "session_row\<lparr>s_CurrentTicketID := Some 1\<rparr>"
  let ?ow = "\<lparr>u_ID = ''owner'', u_Username = ''owner''\<rparr>"
  have h1: "r_user (request ''owner'' 6) = Some ?ow" and h2: "r_user (request ''owner'' 10) = Some ?ow"
    and h3: "r_sessionID (request ''owner'' 6) = ''S''"
    and h4: "r_sessionID (request ''owner'' 10) = ''S''"
    by (simp_all add: request_def)
  have h5: "find (\<lambda>s. s_ID s = ''S'') (sessions (db world_round)) = Some ?row"
    and h6: "s_OwnerID ?row = u_ID ?ow"
    by (simp_all add: example_defs)
  have h7: "current_ticket_id (db world_round) ''S'' = Some 1"
    by (simp add: current_ticket_id_def example_defs)
  have h8: "\<forall>r \<in> set round_votes. r_sessionID r = ''S''
               \<and> (\<exists>u. r_user r = Some u \<and> u_ID u \<in> u_ID ` set (users (db world_round)))
               \<and> SanitizeInput ascii_lib (r_vote r) \<in> set validVotes
               \<and> SanitizeInput ascii_lib (r_vote r) \<in> set AllVotingCards"
    by (simp add: example_defs)
  have l: "latest_votes ascii_lib round_votes Map.empty ''a'' = Some ''3''"
    "latest_votes ascii_lib round_votes Map.empty ''b'' = Some ''8''"
    "latest_votes ascii_lib round_votes Map.empty ''owner'' = None"
    by (simp_all add: example_defs)
  have v: "votes_for (db world_round) 1 \<noteq> []" by (simp add: votes_for_def example_defs)
  from C5_round_of_voting [OF h1 h2 h3 h4 h5 h6 h7 h8] l v show ?thesis
    by auto
qed

section \<open>The broadcast loops\<close>

lemmas hub_defs = two_tabs_def ws_busy_def sse_busy_def sse_a_def sse_b_def msg0_def
  HandleWebSocket_def Run_register_def NewWSService_def NewSSEService_def make_chan_def
  WSService_Broadcast_def Run_broadcast_def SSEService_Broadcast_def chan_full_def
  chan_push_def chan_close_def WSService_GetClientCount_def Let_def

lemma sse_chan_eq_key:
  assumes "distinct (map (sse_Channel \<circ> snd) xs)" "(k, c) \<in> set xs" "(k', c') \<in> set xs"
    "sse_Channel c = sse_Channel c'"
  shows "k = k' \<and> c = c'"
proof -
  from assms(1) have "inj_on (sse_Channel \<circ> snd) (set xs)" by (simp add: distinct_map)
  from inj_onD[OF this, of "(k, c)" "(k', c')"] assms show ?thesis by simp
qed

lemma sse_broadcast_loop_spec:
  assumes "sse_wellformed s" "distinct ks"
  shows "\<exists>s'. sse_broadcast_loop sid m ks s = Inr s' \<and> sse_wellformed s'
           \<and> sse_clients s' = sse_clients s \<and> sse_next s' = sse_next s
           \<and> (\<forall>k c. (k, c) \<in> set (sse_clients s) \<longrightarrow>
                 sse_chans s' (sse_Channel c) =
                   (if k \<in> set ks \<and> sse_SessionID c = sid
                    then sse_deliver m (sse_chans s (sse_Channel c))
                    else sse_chans s (sse_Channel c)))"
  using assms
proof (induction ks arbitrary: s)
  case Nil
  then show ?case by simp
next
  case (Cons k ks)
  have dk: "distinct (map fst (sse_clients s))"
    and dc: "distinct (map (sse_Channel \<circ> snd) (sse_clients s))"
    and op: "\<And>k c. (k, c) \<in> set (sse_clients s) \<Longrightarrow> \<not> ch_closed (sse_chans s (sse_Channel c))"
    and bd: "\<And>k c. (k, c) \<in> set (sse_clients s) \<Longrightarrow> sse_Channel c < sse_next s"
    using Cons.prems(1) by (auto simp: sse_wellformed_def)
  from Cons.prems(2) have k: "k \<notin> set ks" and dks: "distinct ks" by simp_all
  \<comment> \<open>the state after the head key, and what it did to the channels\<close>
  define s1 where "s1 =
    (case map_of (sse_clients s) k of
       None \<Rightarrow> s
     | Some c \<Rightarrow>
         if sse_SessionID c = sid \<and> \<not> chan_full (sse_chans s (sse_Channel c))
         then s\<lparr>sse_chans := (sse_chans s)(sse_Channel c := chan_push m (sse_chans s (sse_Channel c)))\<rparr>
         else s)"
  have step: "sse_broadcast_loop sid m (k # ks) s = sse_broadcast_loop sid m ks s1"
  proof (cases "map_of (sse_clients s) k")
    case None
    then show ?thesis by (simp add: s1_def)
  next
    case (Some c)
    then have "(k, c) \<in> set (sse_clients s)" by (rule map_of_SomeD)
    from op[OF this] Some show ?thesis by (simp add: s1_def Let_def)
  qed
  have cl1: "sse_clients s1 = sse_clients s" and nx1: "sse_next s1 = sse_next s"
    by (simp_all add: s1_def split: option.splits)
  have ch1: "sse_chans s1 (sse_Channel c') =
               (if k' = k \<and> sse_SessionID c' = sid
                then sse_deliver m (sse_chans s (sse_Channel c'))
                else sse_chans s (sse_Channel c'))" if m': "(k', c') \<in> set (sse_clients s)" for k' c'
  proof (cases "map_of (sse_clients s) k")
    case None
    then have "k \<notin> fst ` set (sse_clients s)" by (simp add: map_of_eq_None_iff)
    with m' have "k' \<noteq> k" by force
    then show ?thesis using None by (simp add: s1_def)
  next
    case (Some c)
    then have mem: "(k, c) \<in> set (sse_clients s)" by (rule map_of_SomeD)
    show ?thesis
    proof (cases "k' = k")
      case True
      with dk mem m' have "c' = c" by (metis eq_key_imp_eq_value)
      then show ?thesis using Some True by (simp add: s1_def sse_deliver_def)
    next
      case False
      then have "sse_Channel c' \<noteq> sse_Channel c"
        using sse_chan_eq_key[OF dc m' mem] by blast
      then show ?thesis using Some False by (simp add: s1_def)
    qed
  qed
  have wf1: "sse_wellformed s1"
    unfolding sse_wellformed_def cl1
  proof (intro conjI ballI)
    show "distinct (map fst (sse_clients s))" by (rule dk)
    show "distinct (map (sse_Channel \<circ> snd) (sse_clients s))" by (rule dc)
    fix x assume x: "x \<in> set (sse_clients s)"
    obtain k' c' where kc: "x = (k', c')" by (cases x)
    with x have m': "(k', c') \<in> set (sse_clients s)" by simp
    have "\<not> ch_closed (sse_chans s1 (sse_Channel c'))"
      using ch1[OF m'] op[OF m'] by (simp add: sse_deliver_def chan_push_def)
    with bd[OF m'] show "case x of (k, c) \<Rightarrow>
        \<not> ch_closed (sse_chans s1 (sse_Channel c)) \<and> sse_Channel c < sse_next s1"
      by (simp add: kc nx1)
  qed
  from Cons.IH[OF wf1 dks] obtain s' where s': "sse_broadcast_loop sid m ks s1 = Inr s'"
      "sse_wellformed s'" "sse_clients s' = sse_clients s1" "sse_next s' = sse_next s1"
    and ch: "\<forall>k' c'. (k', c') \<in> set (sse_clients s1) \<longrightarrow>
                 sse_chans s' (sse_Channel c') =
                   (if k' \<in> set ks \<and> sse_SessionID c' = sid
                    then sse_deliver m (sse_chans s1 (sse_Channel c'))
                    else sse_chans s1 (sse_Channel c'))"
    by blast
  have fin: "sse_chans s' (sse_Channel c') =
               (if k' \<in> set (k # ks) \<and> sse_SessionID c' = sid
                then sse_deliver m (sse_chans s (sse_Channel c'))
                else sse_chans s (sse_Channel c'))" if m': "(k', c') \<in> set (sse_clients s)" for k' c'
  proof -
    from ch m' have a: "sse_chans s' (sse_Channel c') =
                   (if k' \<in> set ks \<and> sse_SessionID c' = sid
                    then sse_deliver m (sse_chans s1 (sse_Channel c'))
                    else sse_chans s1 (sse_Channel c'))"
      by (simp add: cl1)
    show ?thesis
    proof (cases "k' = k")
      case True
      then have "k' \<notin> set ks" using k by simp
      then show ?thesis using a ch1[OF m'] True by simp
    next
      case False
      then show ?thesis using a ch1[OF m'] by simp
    qed
  qed
  show ?case
  proof (intro exI[of _ s'] conjI allI impI)
    show "sse_broadcast_loop sid m (k # ks) s = Inr s'" by (simp only: step s')
    show "sse_wellformed s'" by (rule s')
    show "sse_clients s' = sse_clients s" by (simp add: s' cl1)
    show "sse_next s' = sse_next s" by (simp add: s' nx1)
  next
    fix k' c' assume "(k', c') \<in> set (sse_clients s)"
    then show "sse_chans s' (sse_Channel c') =
               (if k' \<in> set (k # ks) \<and> sse_SessionID c' = sid
                then sse_deliver m (sse_chans s (sse_Channel c'))
                else sse_chans s (sse_Channel c'))" by (rule fin)
  qed
qed

lemma ws_chan_eq_key:
  assumes "distinct (map (ws_Send \<circ> snd) xs)" "(k, c) \<in> set xs" "(k', c') \<in> set xs"
    "ws_Send c = ws_Send c'"
  shows "k = k' \<and> c = c'"
proof -
  from assms(1) have "inj_on (ws_Send \<circ> snd) (set xs)" by (simp add: distinct_map)
  from inj_onD[OF this, of "(k, c)" "(k', c')"] assms show ?thesis by simp
qed

lemma ws_wellformedI:
  assumes "distinct (map fst (ws_clients s))" "distinct (map (ws_Send \<circ> snd) (ws_clients s))"
    "\<And>k c. (k, c) \<in> set (ws_clients s) \<Longrightarrow>
       ws_ID c = k \<and> \<not> ch_closed (ws_chans s (ws_Send c)) \<and> ws_Send c < ws_next s"
  shows "ws_wellformed s"
  using assms unfolding ws_wellformed_def by blast

lemma broadcast_loop_spec:
  assumes "ws_wellformed s" "distinct ks"
  shows "\<exists>s'. broadcast_loop bm ks s = Inr s' \<and> ws_wellformed s' \<and> ws_next s' = ws_next s
           \<and> ws_clients s' =
               filter (\<lambda>(k, c). \<not> (k \<in> set ks \<and> ws_SessionID c = bm_SessionID bm
                                    \<and> chan_full (ws_chans s (ws_Send c)))) (ws_clients s)
           \<and> (\<forall>k c. (k, c) \<in> set (ws_clients s) \<longrightarrow>
                 ws_chans s' (ws_Send c) =
                   (if k \<in> set ks \<and> ws_SessionID c = bm_SessionID bm
                    then ws_deliver (bm_Message bm) (ws_chans s (ws_Send c))
                    else ws_chans s (ws_Send c)))
           \<and> (\<forall>r. r \<notin> (ws_Send \<circ> snd) ` set (ws_clients s) \<longrightarrow> ws_chans s' r = ws_chans s r)"
  using assms
proof (induction ks arbitrary: s)
  case Nil
  then show ?case by simp
next
  case (Cons k ks)
  let ?sid = "bm_SessionID bm" and ?m = "bm_Message bm"
  have dk: "distinct (map fst (ws_clients s))"
    and dc: "distinct (map (ws_Send \<circ> snd) (ws_clients s))"
    and op: "\<And>k c. (k, c) \<in> set (ws_clients s) \<Longrightarrow> \<not> ch_closed (ws_chans s (ws_Send c))"
    and idk: "\<And>k c. (k, c) \<in> set (ws_clients s) \<Longrightarrow> ws_ID c = k"
    and bd: "\<And>k c. (k, c) \<in> set (ws_clients s) \<Longrightarrow> ws_Send c < ws_next s"
    using Cons.prems(1) by (auto simp: ws_wellformed_def)
  from Cons.prems(2) have k: "k \<notin> set ks" and dks: "distinct ks" by simp_all
  define hit where "hit = (\<lambda>(k' :: string, c'). k' = k \<and> ws_SessionID c' = ?sid)"
  define s1 where "s1 =
    (case map_of (ws_clients s) k of
       None \<Rightarrow> s
     | Some c \<Rightarrow>
         if ws_SessionID c = ?sid then
           (if \<not> chan_full (ws_chans s (ws_Send c))
            then s\<lparr>ws_chans := (ws_chans s)(ws_Send c := chan_push ?m (ws_chans s (ws_Send c)))\<rparr>
            else s\<lparr>ws_clients := AList.delete (ws_ID c) (ws_clients s),
                  ws_chans := (ws_chans s)(ws_Send c := (ws_chans s (ws_Send c))\<lparr>ch_closed := True\<rparr>)\<rparr>)
         else s)"
  have step: "broadcast_loop bm (k # ks) s = broadcast_loop bm ks s1"
  proof (cases "map_of (ws_clients s) k")
    case None
    then show ?thesis by (simp add: s1_def)
  next
    case (Some c)
    then have "(k, c) \<in> set (ws_clients s)" by (rule map_of_SomeD)
    from op[OF this] Some show ?thesis by (simp add: s1_def Let_def)
  qed
  have nx1: "ws_next s1 = ws_next s"
    by (simp add: s1_def split: option.splits)
  have cl1: "ws_clients s1 =
      filter (\<lambda>(k', c'). \<not> (k' = k \<and> ws_SessionID c' = ?sid \<and> chan_full (ws_chans s (ws_Send c'))))
        (ws_clients s)"
  proof (cases "map_of (ws_clients s) k")
    case None
    then have "k \<notin> fst ` set (ws_clients s)" by (simp add: map_of_eq_None_iff)
    then have "\<forall>x \<in> set (ws_clients s). fst x \<noteq> k" by auto
    then have "filter (\<lambda>(k', c'). \<not> (k' = k \<and> ws_SessionID c' = ?sid \<and> chan_full (ws_chans s (ws_Send c'))))
        (ws_clients s) = ws_clients s"
      by (intro filter_True) auto
    then show ?thesis using None by (simp add: s1_def)
  next
    case (Some c)
    then have mem: "(k, c) \<in> set (ws_clients s)" by (rule map_of_SomeD)
    have uniq: "\<And>c'. (k, c') \<in> set (ws_clients s) \<Longrightarrow> c' = c"
      using dk mem by (metis eq_key_imp_eq_value)
    show ?thesis
    proof (cases "ws_SessionID c = ?sid \<and> chan_full (ws_chans s (ws_Send c))")
      case True
      have "AList.delete k (ws_clients s) =
            filter (\<lambda>(k', c'). \<not> (k' = k \<and> ws_SessionID c' = ?sid \<and> chan_full (ws_chans s (ws_Send c'))))
              (ws_clients s)"
        unfolding AList.delete_eq using True uniq by (intro filter_cong) auto
      then show ?thesis using Some True idk[OF mem] by (simp add: s1_def)
    next
      case False
      have "filter (\<lambda>(k', c'). \<not> (k' = k \<and> ws_SessionID c' = ?sid \<and> chan_full (ws_chans s (ws_Send c'))))
        (ws_clients s) = ws_clients s"
        using False uniq by (intro filter_True) auto
      then show ?thesis using Some False by (auto simp add: s1_def)
    qed
  qed
  have sub1: "set (ws_clients s1) \<subseteq> set (ws_clients s)" by (auto simp: cl1)
  have ch1: "ws_chans s1 (ws_Send c') =
               (if k' = k \<and> ws_SessionID c' = ?sid
                then ws_deliver ?m (ws_chans s (ws_Send c'))
                else ws_chans s (ws_Send c'))" if m': "(k', c') \<in> set (ws_clients s)" for k' c'
  proof (cases "map_of (ws_clients s) k")
    case None
    then have "k \<notin> fst ` set (ws_clients s)" by (simp add: map_of_eq_None_iff)
    with m' have "k' \<noteq> k" by force
    then show ?thesis using None by (simp add: s1_def)
  next
    case (Some c)
    then have mem: "(k, c) \<in> set (ws_clients s)" by (rule map_of_SomeD)
    show ?thesis
    proof (cases "k' = k")
      case True
      with dk mem m' have "c' = c" by (metis eq_key_imp_eq_value)
      then show ?thesis using Some True by (simp add: s1_def ws_deliver_def)
    next
      case False
      then have "ws_Send c' \<noteq> ws_Send c"
        using ws_chan_eq_key[OF dc m' mem] by blast
      then show ?thesis using Some False by (simp add: s1_def)
    qed
  qed
  have out1: "ws_chans s1 r = ws_chans s r" if "r \<notin> (ws_Send \<circ> snd) ` set (ws_clients s)" for r
  proof (cases "map_of (ws_clients s) k")
    case None
    then show ?thesis by (simp add: s1_def)
  next
    case (Some c)
    then have mem: "(k, c) \<in> set (ws_clients s)" by (rule map_of_SomeD)
    then have "ws_Send c \<in> (ws_Send \<circ> snd) ` set (ws_clients s)" by force
    with that have "r \<noteq> ws_Send c" by blast
    then show ?thesis using Some by (simp add: s1_def)
  qed
  have wf1: "ws_wellformed s1"
  proof (rule ws_wellformedI)
    show "distinct (map fst (ws_clients s1))" unfolding cl1 using dk by (rule distinct_map_filter)
    show "distinct (map (ws_Send \<circ> snd) (ws_clients s1))"
      unfolding cl1 using dc by (rule distinct_map_filter)
    fix k' c' assume a: "(k', c') \<in> set (ws_clients s1)"
    then have m': "(k', c') \<in> set (ws_clients s)" using sub1 by blast
    from a have nf: "\<not> (k' = k \<and> ws_SessionID c' = ?sid \<and> chan_full (ws_chans s (ws_Send c')))"
      by (simp add: cl1)
    have "\<not> ch_closed (ws_chans s1 (ws_Send c'))"
      using ch1[OF m'] op[OF m'] nf by (auto simp: ws_deliver_def chan_push_def)
    with idk[OF m'] bd[OF m'] show "ws_ID c' = k' \<and> \<not> ch_closed (ws_chans s1 (ws_Send c'))
        \<and> ws_Send c' < ws_next s1" by (simp add: nx1)
  qed
  from Cons.IH[OF wf1 dks] obtain s' where s': "broadcast_loop bm ks s1 = Inr s'"
      "ws_wellformed s'" "ws_next s' = ws_next s1"
    and cl: "ws_clients s' =
               filter (\<lambda>(k, c). \<not> (k \<in> set ks \<and> ws_SessionID c = ?sid
                                    \<and> chan_full (ws_chans s1 (ws_Send c)))) (ws_clients s1)"
    and ch: "\<forall>k' c'. (k', c') \<in> set (ws_clients s1) \<longrightarrow>
                 ws_chans s' (ws_Send c') =
                   (if k' \<in> set ks \<and> ws_SessionID c' = ?sid
                    then ws_deliver ?m (ws_chans s1 (ws_Send c'))
                    else ws_chans s1 (ws_Send c'))"
    and out: "\<forall>r. r \<notin> (ws_Send \<circ> snd) ` set (ws_clients s1) \<longrightarrow> ws_chans s' r = ws_chans s1 r"
    by blast
  have fin_cl: "ws_clients s' =
               filter (\<lambda>(k', c). \<not> (k' \<in> set (k # ks) \<and> ws_SessionID c = ?sid
                                    \<and> chan_full (ws_chans s (ws_Send c)))) (ws_clients s)"
  proof -
    have "filter (\<lambda>(k, c). \<not> (k \<in> set ks \<and> ws_SessionID c = ?sid
                                    \<and> chan_full (ws_chans s1 (ws_Send c)))) (ws_clients s1)
        = filter (\<lambda>(k, c). \<not> (k \<in> set ks \<and> ws_SessionID c = ?sid
                                    \<and> chan_full (ws_chans s (ws_Send c)))) (ws_clients s1)"
    proof (rule filter_cong[OF refl])
      fix x assume x: "x \<in> set (ws_clients s1)"
      obtain k' c' where kc: "x = (k', c')" by (cases x)
      with x sub1 have m': "(k', c') \<in> set (ws_clients s)" by blast
      have "k' \<in> set ks \<Longrightarrow> ws_chans s1 (ws_Send c') = ws_chans s (ws_Send c')"
        using ch1[OF m'] k by auto
      then show "(case x of (k, c) \<Rightarrow> \<not> (k \<in> set ks \<and> ws_SessionID c = ?sid
                                    \<and> chan_full (ws_chans s1 (ws_Send c))))
               = (case x of (k, c) \<Rightarrow> \<not> (k \<in> set ks \<and> ws_SessionID c = ?sid
                                    \<and> chan_full (ws_chans s (ws_Send c))))"
        by (auto simp: kc)
    qed
    then show ?thesis unfolding cl cl1 by (auto intro: filter_cong)
  qed
  have fin_ch: "ws_chans s' (ws_Send c') =
               (if k' \<in> set (k # ks) \<and> ws_SessionID c' = ?sid
                then ws_deliver ?m (ws_chans s (ws_Send c'))
                else ws_chans s (ws_Send c'))" if m': "(k', c') \<in> set (ws_clients s)" for k' c'
  proof (cases "(k', c') \<in> set (ws_clients s1)")
    case True
    with ch have a: "ws_chans s' (ws_Send c') =
                   (if k' \<in> set ks \<and> ws_SessionID c' = ?sid
                    then ws_deliver ?m (ws_chans s1 (ws_Send c'))
                    else ws_chans s1 (ws_Send c'))" by blast
    show ?thesis
    proof (cases "k' = k")
      case True
      then have "k' \<notin> set ks" using k by simp
      then show ?thesis using a ch1[OF m'] True by simp
    next
      case False
      then show ?thesis using a ch1[OF m'] by simp
    qed
  next
    case False
    with m' have hd: "k' = k" "ws_SessionID c' = ?sid" by (auto simp: cl1)
    have "ws_Send c' \<notin> (ws_Send \<circ> snd) ` set (ws_clients s1)"
    proof
      assume "ws_Send c' \<in> (ws_Send \<circ> snd) ` set (ws_clients s1)"
      then obtain k2 c2 where 2: "(k2, c2) \<in> set (ws_clients s1)" "ws_Send c2 = ws_Send c'" by auto
      then have "(k2, c2) \<in> set (ws_clients s)" using sub1 by blast
      from ws_chan_eq_key[OF dc this m' 2(2)] 2(1) False show False by simp
    qed
    with out have "ws_chans s' (ws_Send c') = ws_chans s1 (ws_Send c')" by blast
    then show ?thesis using ch1[OF m'] hd by simp
  qed
  have fin_out: "ws_chans s' r = ws_chans s r" if r: "r \<notin> (ws_Send \<circ> snd) ` set (ws_clients s)" for r
  proof -
    from r sub1 have "r \<notin> (ws_Send \<circ> snd) ` set (ws_clients s1)" by blast
    with out have "ws_chans s' r = ws_chans s1 r" by blast
    then show ?thesis using out1[OF r] by simp
  qed
  show ?case
  proof (intro exI[of _ s'] conjI allI impI)
    show "broadcast_loop bm (k # ks) s = Inr s'" by (simp only: step s')
    show "ws_wellformed s'" by (rule s')
    show "ws_next s' = ws_next s" by (simp add: s' nx1)
    show "ws_clients s' =
               filter (\<lambda>(k', c). \<not> (k' \<in> set (k # ks) \<and> ws_SessionID c = ?sid
                                    \<and> chan_full (ws_chans s (ws_Send c)))) (ws_clients s)"
      by (rule fin_cl)
  next
    fix k' c' assume "(k', c') \<in> set (ws_clients s)"
    then show "ws_chans s' (ws_Send c') =
               (if k' \<in> set (k # ks) \<and> ws_SessionID c' = ?sid
                then ws_deliver ?m (ws_chans s (ws_Send c'))
                else ws_chans s (ws_Send c'))" by (rule fin_ch)
  next
    fix r assume "r \<notin> (ws_Send \<circ> snd) ` set (ws_clients s)"
    then show "ws_chans s' r = ws_chans s r" by (rule fin_out)
  qed
qed

section \<open>Well-formed registries\<close>

lemma set_update_subset: "set (AList.update k v xs) \<subseteq> insert (k, v) (set xs)"
  by (induction xs) auto

lemma distinct_refs_update:
  assumes "distinct (map (f \<circ> snd) xs)" "f v \<notin> (f \<circ> snd) ` set xs"
  shows "distinct (map (f \<circ> snd) (AList.update k v xs))"
  using assms
proof (induction xs)
  case Nil
  then show ?case by simp
next
  case (Cons x xs)
  obtain k' v' where x: "x = (k', v')" by (cases x)
  have sub: "(f \<circ> snd) ` set (AList.update k v xs) \<subseteq> insert (f v) ((f \<circ> snd) ` set xs)"
    using set_update_subset[of k v xs] by force
  show ?case
  proof (cases "k' = k")
    case True
    with Cons.prems x show ?thesis by (auto simp: comp_def)
  next
    case False
    have "f v' \<notin> (f \<circ> snd) ` set (AList.update k v xs)"
      using sub Cons.prems x by (auto simp: comp_def)
    moreover have "distinct (map (f \<circ> snd) (AList.update k v xs))"
    proof (rule Cons.IH)
      show "distinct (map (f \<circ> snd) xs)" using Cons.prems(1) by (simp add: comp_def)
      show "f v \<notin> (f \<circ> snd) ` set xs" using Cons.prems(2) by (simp add: comp_def)
    qed
    ultimately show ?thesis using False x by (simp add: comp_def)
  qed
qed

lemma NewWSService_wellformed: "ws_wellformed NewWSService"
  by (simp add: ws_wellformed_def NewWSService_def)

lemma HandleWebSocket_wellformed:
  assumes "ws_wellformed s"
  shows "ws_wellformed (snd (HandleWebSocket upgraded sessionID userID s))"
proof (cases upgraded)
  case False
  with assms show ?thesis by (simp add: HandleWebSocket_def)
next
  case True
  let ?k = "sessionID @ ''_'' @ userID"
  let ?c = "\<lparr>ws_ID = ?k, ws_SessionID = sessionID, ws_UserID = userID, ws_Send = ws_next s\<rparr>"
  let ?s' = "snd (HandleWebSocket upgraded sessionID userID s)"
  have cl: "ws_clients ?s' = AList.update ?k ?c (ws_clients s)"
    and ch: "ws_chans ?s' = (ws_chans s)(ws_next s := make_chan 256)"
    and nx: "ws_next ?s' = ws_next s + 1"
    using True by (simp_all add: HandleWebSocket_def Run_register_def Let_def)
  have dk: "distinct (map fst (ws_clients s))"
    and dc: "distinct (map (ws_Send \<circ> snd) (ws_clients s))"
    and old: "\<And>k c. (k, c) \<in> set (ws_clients s) \<Longrightarrow>
                ws_ID c = k \<and> \<not> ch_closed (ws_chans s (ws_Send c)) \<and> ws_Send c < ws_next s"
    using assms by (auto simp: ws_wellformed_def)
  have fresh: "ws_Send ?c \<notin> (ws_Send \<circ> snd) ` set (ws_clients s)"
    using old by fastforce
  show ?thesis
  proof (rule ws_wellformedI)
    show "distinct (map fst (ws_clients ?s'))" unfolding cl using dk by (rule distinct_update)
    show "distinct (map (ws_Send \<circ> snd) (ws_clients ?s'))"
      unfolding cl using dc fresh by (rule distinct_refs_update)
    fix k c assume "(k, c) \<in> set (ws_clients ?s')"
    then have "(k, c) = (?k, ?c) \<or> (k, c) \<in> set (ws_clients s)"
      unfolding cl using set_update_subset[of ?k ?c "ws_clients s"] by blast
    then show "ws_ID c = k \<and> \<not> ch_closed (ws_chans ?s' (ws_Send c)) \<and> ws_Send c < ws_next ?s'"
    proof
      assume "(k, c) = (?k, ?c)"
      then show ?thesis by (simp add: ch nx make_chan_def)
    next
      assume "(k, c) \<in> set (ws_clients s)"
      from old[OF this] show ?thesis by (simp add: ch nx)
    qed
  qed
qed

lemma NewSSEService_wellformed: "sse_wellformed NewSSEService"
  by (simp add: sse_wellformed_def NewSSEService_def)

lemma AddClient_wellformed:
  assumes "sse_wellformed s"
  shows "sse_wellformed (snd (AddClient sessionID userID nanos s))"
proof -
  let ?k = "sessionID @ ''_'' @ userID @ ''_'' @ itoa nanos"
  let ?c = "\<lparr>sse_ID = ?k, sse_SessionID = sessionID, sse_UserID = userID, sse_Channel = sse_next s\<rparr>"
  let ?s' = "snd (AddClient sessionID userID nanos s)"
  have cl: "sse_clients ?s' = AList.update ?k ?c (sse_clients s)"
    and ch: "sse_chans ?s' = (sse_chans s)(sse_next s := make_chan 10)"
    and nx: "sse_next ?s' = sse_next s + 1"
    by (simp_all add: AddClient_def Let_def)
  have dk: "distinct (map fst (sse_clients s))"
    and dc: "distinct (map (sse_Channel \<circ> snd) (sse_clients s))"
    and old: "\<And>k c. (k, c) \<in> set (sse_clients s) \<Longrightarrow>
                \<not> ch_closed (sse_chans s (sse_Channel c)) \<and> sse_Channel c < sse_next s"
    using assms by (auto simp: sse_wellformed_def)
  have fresh: "sse_Channel ?c \<notin> (sse_Channel \<circ> snd) ` set (sse_clients s)"
    using old by fastforce
  show ?thesis
    unfolding sse_wellformed_def
  proof (intro conjI ballI)
    show "distinct (map fst (sse_clients ?s'))" unfolding cl using dk by (rule distinct_update)
    show "distinct (map (sse_Channel \<circ> snd) (sse_clients ?s'))"
      unfolding cl using dc fresh by (rule distinct_refs_update)
    fix x assume x: "x \<in> set (sse_clients ?s')"
    obtain k c where kc: "x = (k, c)" by (cases x)
    with x have "(k, c) = (?k, ?c) \<or> (k, c) \<in> set (sse_clients s)"
      unfolding cl using set_update_subset[of ?k ?c "sse_clients s"] by blast
    then have "\<not> ch_closed (sse_chans ?s' (sse_Channel c)) \<and> sse_Channel c < sse_next ?s'"
    proof
      assume "(k, c) = (?k, ?c)"
      then show ?thesis by (simp add: ch nx make_chan_def)
    next
      assume "(k, c) \<in> set (sse_clients s)"
      from old[OF this] show ?thesis by (simp add: ch nx)
    qed
    then show "case x of (k, c) \<Rightarrow>
        \<not> ch_closed (sse_chans ?s' (sse_Channel c)) \<and> sse_Channel c < sse_next ?s'"
      by (simp add: kc)
  qed
qed

section \<open>A full queue\<close>

text \<open>
  C7. For a broadcast to a session of K registered connections of which one has a full
  outbound queue: the event is not queued for that connection, it is queued for every
  other connection of the session whose queue has room, and the broadcast returns without
  an error. This holds for the WebSocket hub that the handlers use (which also drops the
  full connection from the registry, without waiting) and for the SSE hub (which gives
  up after its 100 ms timer and keeps the connection). The length of the wait is real
  time and not part of the model: the loop is a total function of the state.
\<close>

theorem C7_full_queue_drops_only_there:
  assumes ws: "ws_wellformed s" "(k, c) \<in> set (ws_clients s)" "ws_SessionID c = sid"
      "chan_full (ws_chans s (ws_Send c))"
    and sse: "sse_wellformed t" "(j, d) \<in> set (sse_clients t)" "sse_SessionID d = sid"
      "chan_full (sse_chans t (sse_Channel d))"
  shows "(\<exists>s'. WSService_Broadcast sid m s = Inr s'
            \<and> ch_buf (ws_chans s' (ws_Send c)) = ch_buf (ws_chans s (ws_Send c))
            \<and> (\<forall>k' c'. (k', c') \<in> set (ws_clients s) \<and> ws_SessionID c' = sid
                  \<and> \<not> chan_full (ws_chans s (ws_Send c')) \<longrightarrow>
                ch_buf (ws_chans s' (ws_Send c')) = ch_buf (ws_chans s (ws_Send c')) @ [m]
                \<and> (k', c') \<in> set (ws_clients s')))
       \<and> (\<exists>t'. SSEService_Broadcast sid m t = Inr t'
            \<and> sse_chans t' (sse_Channel d) = sse_chans t (sse_Channel d)
            \<and> sse_clients t' = sse_clients t
            \<and> (\<forall>j' d'. (j', d') \<in> set (sse_clients t) \<and> sse_SessionID d' = sid
                  \<and> \<not> chan_full (sse_chans t (sse_Channel d')) \<longrightarrow>
                ch_buf (sse_chans t' (sse_Channel d')) = ch_buf (sse_chans t (sse_Channel d')) @ [m]))"
proof (rule conjI)
  let ?bm = "\<lparr>bm_SessionID = sid, bm_Message = m\<rparr>"
  from ws(1) have dk: "distinct (map fst (ws_clients s))" by (simp add: ws_wellformed_def)
  from broadcast_loop_spec[OF ws(1) dk, of ?bm]
  obtain s' where s': "broadcast_loop ?bm (map fst (ws_clients s)) s = Inr s'"
    and cl: "ws_clients s' =
               filter (\<lambda>(k, c). \<not> (k \<in> set (map fst (ws_clients s)) \<and> ws_SessionID c = sid
                                    \<and> chan_full (ws_chans s (ws_Send c)))) (ws_clients s)"
    and ch: "\<forall>k c. (k, c) \<in> set (ws_clients s) \<longrightarrow>
                 ws_chans s' (ws_Send c) =
                   (if k \<in> set (map fst (ws_clients s)) \<and> ws_SessionID c = sid
                    then ws_deliver m (ws_chans s (ws_Send c))
                    else ws_chans s (ws_Send c))"
    by auto
  have key: "k' \<in> set (map fst (ws_clients s))" if "(k', c') \<in> set (ws_clients s)" for k' c'
    using that by force
  show "\<exists>s'. WSService_Broadcast sid m s = Inr s'
            \<and> ch_buf (ws_chans s' (ws_Send c)) = ch_buf (ws_chans s (ws_Send c))
            \<and> (\<forall>k' c'. (k', c') \<in> set (ws_clients s) \<and> ws_SessionID c' = sid
                  \<and> \<not> chan_full (ws_chans s (ws_Send c')) \<longrightarrow>
                ch_buf (ws_chans s' (ws_Send c')) = ch_buf (ws_chans s (ws_Send c')) @ [m]
                \<and> (k', c') \<in> set (ws_clients s'))"
  proof (intro exI[of _ s'] conjI allI impI)
    show "WSService_Broadcast sid m s = Inr s'"
      by (simp add: WSService_Broadcast_def Run_broadcast_def s')
    show "ch_buf (ws_chans s' (ws_Send c)) = ch_buf (ws_chans s (ws_Send c))"
      using ch ws(2,3,4) key[OF ws(2)] by (simp add: ws_deliver_def)
  next
    fix k' c'
    assume a: "(k', c') \<in> set (ws_clients s) \<and> ws_SessionID c' = sid
                  \<and> \<not> chan_full (ws_chans s (ws_Send c'))"
    then have mem: "(k', c') \<in> set (ws_clients s)" and se: "ws_SessionID c' = sid"
      and nf: "\<not> chan_full (ws_chans s (ws_Send c'))" by simp_all
    from ch[rule_format, OF mem] key[OF mem] se
    have "ws_chans s' (ws_Send c') = ws_deliver m (ws_chans s (ws_Send c'))" by simp
    then show "ch_buf (ws_chans s' (ws_Send c')) = ch_buf (ws_chans s (ws_Send c')) @ [m]"
      using nf by (simp add: ws_deliver_def chan_push_def)
    from mem nf show "(k', c') \<in> set (ws_clients s')" by (simp add: cl)
  qed
next
  from sse(1) have dk: "distinct (map fst (sse_clients t))" by (simp add: sse_wellformed_def)
  from sse_broadcast_loop_spec[OF sse(1) dk, of sid m]
  obtain t' where t': "sse_broadcast_loop sid m (map fst (sse_clients t)) t = Inr t'"
    and cl: "sse_clients t' = sse_clients t"
    and ch: "\<forall>k c. (k, c) \<in> set (sse_clients t) \<longrightarrow>
                 sse_chans t' (sse_Channel c) =
                   (if k \<in> set (map fst (sse_clients t)) \<and> sse_SessionID c = sid
                    then sse_deliver m (sse_chans t (sse_Channel c))
                    else sse_chans t (sse_Channel c))"
    by auto
  have key: "k' \<in> set (map fst (sse_clients t))" if "(k', c') \<in> set (sse_clients t)" for k' c'
    using that by force
  show "\<exists>t'. SSEService_Broadcast sid m t = Inr t'
            \<and> sse_chans t' (sse_Channel d) = sse_chans t (sse_Channel d)
            \<and> sse_clients t' = sse_clients t
            \<and> (\<forall>j' d'. (j', d') \<in> set (sse_clients t) \<and> sse_SessionID d' = sid
                  \<and> \<not> chan_full (sse_chans t (sse_Channel d')) \<longrightarrow>
                ch_buf (sse_chans t' (sse_Channel d')) = ch_buf (sse_chans t (sse_Channel d')) @ [m])"
  proof (intro exI[of _ t'] conjI allI impI)
    show "SSEService_Broadcast sid m t = Inr t'"
      by (simp add: SSEService_Broadcast_def t')
    show "sse_chans t' (sse_Channel d) = sse_chans t (sse_Channel d)"
      using ch sse(2,3,4) key[OF sse(2)] by (simp add: sse_deliver_def)
    show "sse_clients t' = sse_clients t" by (rule cl)
  next
    fix j' d'
    assume a: "(j', d') \<in> set (sse_clients t) \<and> sse_SessionID d' = sid
                  \<and> \<not> chan_full (sse_chans t (sse_Channel d'))"
    then have mem: "(j', d') \<in> set (sse_clients t)" and se: "sse_SessionID d' = sid"
      and nf: "\<not> chan_full (sse_chans t (sse_Channel d'))" by simp_all
    from ch[rule_format, OF mem] key[OF mem] se
    have "sse_chans t' (sse_Channel d') = sse_deliver m (sse_chans t (sse_Channel d'))" by simp
    then show "ch_buf (sse_chans t' (sse_Channel d')) = ch_buf (sse_chans t (sse_Channel d')) @ [m]"
      using nf by (simp add: sse_deliver_def chan_push_def)
  qed
qed

lemma ws_busy_clients:
  "ws_clients ws_busy =
     [(''S_a'', \<lparr>ws_ID = ''S_a'', ws_SessionID = ''S'', ws_UserID = ''a'', ws_Send = 0\<rparr>),
      (''S_b'', \<lparr>ws_ID = ''S_b'', ws_SessionID = ''S'', ws_UserID = ''b'', ws_Send = 1\<rparr>)]"
  by (simp add: hub_defs)

lemma ws_busy_wellformed: "ws_wellformed ws_busy"
  by (simp add: ws_wellformed_def ws_busy_clients) (simp add: hub_defs)

lemma sse_busy_wellformed: "sse_wellformed sse_busy"
  by (simp add: sse_wellformed_def hub_defs)

theorem C7_witness:
  "ws_wellformed ws_busy \<and> chan_full (ws_chans ws_busy 0) \<and> \<not> chan_full (ws_chans ws_busy 1)
   \<and> (\<exists>s'. WSService_Broadcast ''S'' msg0 ws_busy = Inr s'
          \<and> ch_buf (ws_chans s' 0) = replicate 256 msg0
          \<and> ch_buf (ws_chans s' 1) = [msg0])
   \<and> sse_wellformed sse_busy
   \<and> (\<exists>t'. SSEService_Broadcast ''S'' msg0 sse_busy = Inr t'
          \<and> ch_buf (sse_chans t' 0) = replicate 10 msg0
          \<and> ch_buf (sse_chans t' 1) = [msg0])"
proof -
  let ?a = "\<lparr>ws_ID = ''S_a'', ws_SessionID = ''S'', ws_UserID = ''a'', ws_Send = 0\<rparr>"
  let ?b = "\<lparr>ws_ID = ''S_b'', ws_SessionID = ''S'', ws_UserID = ''b'', ws_Send = 1\<rparr>"
  have w2: "(''S_a'', ?a) \<in> set (ws_clients ws_busy)" and wb: "(''S_b'', ?b) \<in> set (ws_clients ws_busy)"
    by (simp_all add: ws_busy_clients)
  have w3: "ws_SessionID ?a = ''S''" by simp
  have c0: "ws_chans ws_busy 0 = \<lparr>ch_buf = replicate 256 msg0, ch_cap = 256, ch_closed = False\<rparr>"
    and c1: "ws_chans ws_busy 1 = \<lparr>ch_buf = [], ch_cap = 256, ch_closed = False\<rparr>"
    by (simp_all add: hub_defs)
  have w4: "chan_full (ws_chans ws_busy (ws_Send ?a))" by (simp add: c0 chan_full_def)
  have s2: "(''S_a_1000'', sse_a) \<in> set (sse_clients sse_busy)"
    and sb: "(''S_b_2000'', sse_b) \<in> set (sse_clients sse_busy)"
    by (simp_all add: sse_busy_def)
  have s3: "sse_SessionID sse_a = ''S''" by (simp add: sse_a_def)
  have d0: "sse_chans sse_busy 0 = \<lparr>ch_buf = replicate 10 msg0, ch_cap = 10, ch_closed = False\<rparr>"
    and d1: "sse_chans sse_busy 1 = \<lparr>ch_buf = [], ch_cap = 10, ch_closed = False\<rparr>"
    by (simp_all add: sse_busy_def make_chan_def)
  have s4: "chan_full (sse_chans sse_busy (sse_Channel sse_a))"
    by (simp add: sse_a_def d0 chan_full_def)
  from C7_full_queue_drops_only_there [OF ws_busy_wellformed w2 w3 w4 sse_busy_wellformed s2 s3 s4,
      of msg0]
  obtain s' t' where
    1: "WSService_Broadcast ''S'' msg0 ws_busy = Inr s'"
       "ch_buf (ws_chans s' (ws_Send ?a)) = ch_buf (ws_chans ws_busy (ws_Send ?a))"
       "\<forall>k' c'. (k', c') \<in> set (ws_clients ws_busy) \<and> ws_SessionID c' = ''S''
                  \<and> \<not> chan_full (ws_chans ws_busy (ws_Send c')) \<longrightarrow>
                ch_buf (ws_chans s' (ws_Send c')) = ch_buf (ws_chans ws_busy (ws_Send c')) @ [msg0]
                \<and> (k', c') \<in> set (ws_clients s')"
    and 2: "SSEService_Broadcast ''S'' msg0 sse_busy = Inr t'"
       "sse_chans t' (sse_Channel sse_a) = sse_chans sse_busy (sse_Channel sse_a)"
       "\<forall>j' d'. (j', d') \<in> set (sse_clients sse_busy) \<and> sse_SessionID d' = ''S''
                  \<and> \<not> chan_full (sse_chans sse_busy (sse_Channel d')) \<longrightarrow>
                ch_buf (sse_chans t' (sse_Channel d')) = ch_buf (sse_chans sse_busy (sse_Channel d')) @ [msg0]"
    by blast
  have nfull: "\<not> chan_full (ws_chans ws_busy 1)" unfolding chan_full_def c1 by simp
  from 1(3)[rule_format, of "''S_b''" ?b] wb nfull c1 have b1: "ch_buf (ws_chans s' 1) = [msg0]"
    by simp
  have sn: "\<not> chan_full (sse_chans sse_busy 1)" unfolding chan_full_def d1 by simp
  from 2(3)[rule_format, of "''S_b_2000''" sse_b] sb sn d1 s3
  have b2: "ch_buf (sse_chans t' 1) = [msg0]"
    by (simp add: sse_b_def)
  show ?thesis
    using 1(1,2) 2(1,2) b1 b2 ws_busy_wellformed sse_busy_wellformed w4 nfull
    by (simp add: c0 d0 sse_a_def)
qed

section \<open>Removing a connection twice\<close>

text \<open>
  What holds in both hubs: a removal by an identifier that is not in the registry returns
  the state as it is, without error; after a removal that returned, the same call again
  is such a removal; and a removal leaves every other identifier as it was. In the SSE
  hub, where an identifier belongs to one connection, this is the idempotence of
  \<open>RemoveClient\<close>.
\<close>

lemma removal_of_absent_id_is_noop:
  "(map_of (ws_clients s) (ws_ID c) = None \<longrightarrow> Run_unregister c s = Inr s)
   \<and> (\<forall>s'. Run_unregister c s = Inr s' \<longrightarrow>
          Run_unregister c s' = Inr s'
          \<and> (\<forall>k. k \<noteq> ws_ID c \<longrightarrow> map_of (ws_clients s') k = map_of (ws_clients s) k))
   \<and> (map_of (sse_clients t) cid = None \<longrightarrow> RemoveClient cid t = Inr t)
   \<and> (\<forall>t'. RemoveClient cid t = Inr t' \<longrightarrow>
          RemoveClient cid t' = Inr t'
          \<and> (\<forall>k. k \<noteq> cid \<longrightarrow> map_of (sse_clients t') k = map_of (sse_clients t) k))"
proof (intro conjI allI impI)
  assume "map_of (ws_clients s) (ws_ID c) = None"
  then show "Run_unregister c s = Inr s" by (simp add: Run_unregister_def)
next
  fix s' assume a: "Run_unregister c s = Inr s'"
  show "Run_unregister c s' = Inr s'"
  proof (cases "map_of (ws_clients s) (ws_ID c)")
    case None
    with a show ?thesis by (simp add: Run_unregister_def)
  next
    case (Some x)
    with a have "ws_clients s' = AList.delete (ws_ID c) (ws_clients s)"
      by (auto simp: Run_unregister_def split: sum.splits)
    then have "map_of (ws_clients s') (ws_ID c) = None" by (simp add: delete_conv)
    then show ?thesis by (simp add: Run_unregister_def)
  qed
  fix k assume "k \<noteq> ws_ID c"
  with a show "map_of (ws_clients s') k = map_of (ws_clients s) k"
    by (auto simp: Run_unregister_def delete_conv split: option.splits sum.splits)
next
  assume "map_of (sse_clients t) cid = None"
  then show "RemoveClient cid t = Inr t" by (simp add: RemoveClient_def)
next
  fix t' assume a: "RemoveClient cid t = Inr t'"
  show "RemoveClient cid t' = Inr t'"
  proof (cases "map_of (sse_clients t) cid")
    case None
    with a show ?thesis by (simp add: RemoveClient_def)
  next
    case (Some x)
    with a have "sse_clients t' = AList.delete cid (sse_clients t)"
      by (auto simp: RemoveClient_def split: sum.splits)
    then have "map_of (sse_clients t') cid = None" by (simp add: delete_conv)
    then show ?thesis by (simp add: RemoveClient_def)
  qed
  fix k assume "k \<noteq> cid"
  with a show "map_of (sse_clients t') k = map_of (sse_clients t) k"
    by (auto simp: RemoveClient_def delete_conv split: option.splits sum.splits)
qed

lemma broadcast_times_fill:
  assumes "ws_clients s = [(k, c)]" "ws_SessionID c = sid"
    and "\<not> ch_closed (ws_chans s (ws_Send c))"
    and "length (ch_buf (ws_chans s (ws_Send c))) + n \<le> ch_cap (ws_chans s (ws_Send c))"
  shows "broadcast_times n sid m s =
           Inr (s\<lparr>ws_chans := (ws_chans s)(ws_Send c :=
                    (ws_chans s (ws_Send c))\<lparr>ch_buf := ch_buf (ws_chans s (ws_Send c)) @ replicate n m\<rparr>)\<rparr>)"
  using assms
proof (induction n arbitrary: s)
  case 0
  then show ?case by simp
next
  case (Suc n)
  let ?ch = "ws_chans s (ws_Send c)"
  let ?s1 = "s\<lparr>ws_chans := (ws_chans s)(ws_Send c := chan_push m ?ch)\<rparr>"
  have one: "WSService_Broadcast sid m s = Inr ?s1"
    using Suc.prems
    by (simp add: WSService_Broadcast_def Run_broadcast_def chan_full_def Let_def)
  have ih: "broadcast_times n sid m ?s1 =
           Inr (?s1\<lparr>ws_chans := (ws_chans ?s1)(ws_Send c :=
                    (ws_chans ?s1 (ws_Send c))\<lparr>ch_buf := ch_buf (ws_chans ?s1 (ws_Send c)) @ replicate n m\<rparr>)\<rparr>)"
    using Suc.prems by (intro Suc.IH) (simp_all add: chan_push_def)
  have eq: "?s1\<lparr>ws_chans := (ws_chans ?s1)(ws_Send c :=
                    (ws_chans ?s1 (ws_Send c))\<lparr>ch_buf := ch_buf (ws_chans ?s1 (ws_Send c)) @ replicate n m\<rparr>)\<rparr>
          = s\<lparr>ws_chans := (ws_chans s)(ws_Send c := ?ch\<lparr>ch_buf := ch_buf ?ch @ replicate (Suc n) m\<rparr>)\<rparr>"
    by (simp add: chan_push_def)
  show ?case
    by (simp only: broadcast_times.simps one sum.case ih eq)
qed

lemma ws_one_eq:
  "ws_one = \<lparr>ws_clients = [(''S_a'', tab_a)], ws_chans = (\<lambda>r. make_chan 0)(0 := make_chan 256),
             ws_next = 1\<rparr>"
  by (simp add: ws_one_def tab_a_def HandleWebSocket_def Run_register_def NewWSService_def Let_def)

lemma WSService_Broadcast_wellformed:
  assumes "ws_wellformed s"
  shows "\<exists>s'. WSService_Broadcast sid m s = Inr s' \<and> ws_wellformed s'"
proof -
  from assms have "distinct (map fst (ws_clients s))" by (simp add: ws_wellformed_def)
  from broadcast_loop_spec[OF assms this, of "\<lparr>bm_SessionID = sid, bm_Message = m\<rparr>"]
  show ?thesis by (auto simp: WSService_Broadcast_def Run_broadcast_def)
qed

lemma broadcast_times_wellformed:
  "ws_wellformed s \<Longrightarrow> \<exists>s'. broadcast_times n sid m s = Inr s' \<and> ws_wellformed s'"
proof (induction n arbitrary: s)
  case 0
  then show ?case by simp
next
  case (Suc n)
  from WSService_Broadcast_wellformed[OF Suc.prems, of sid m]
  obtain s1 where s1: "WSService_Broadcast sid m s = Inr s1" "ws_wellformed s1" by blast
  from Suc.IH[OF s1(2)] s1(1) show ?case by simp
qed

text \<open>The registry in which the unregistration below panics is one that the hub's own
  operations build, and well-formed.\<close>

lemma reconnected_registry_wellformed:
  "\<exists>full evicted.
      broadcast_times 256 ''S'' msg0 ws_one = Inr full
    \<and> WSService_Broadcast ''S'' msg0 full = Inr evicted
    \<and> ws_wellformed (snd (HandleWebSocket True ''S'' ''a'' evicted))"
proof -
  have "ws_wellformed ws_one"
    unfolding ws_one_def by (intro HandleWebSocket_wellformed NewWSService_wellformed)
  from broadcast_times_wellformed[OF this, of 256 "''S''" msg0]
  obtain full where f: "broadcast_times 256 ''S'' msg0 ws_one = Inr full" "ws_wellformed full"
    by blast
  from WSService_Broadcast_wellformed[OF f(2), of "''S''" msg0]
  obtain evicted where e: "WSService_Broadcast ''S'' msg0 full = Inr evicted" "ws_wellformed evicted"
    by blast
  from f(1) e(1) HandleWebSocket_wellformed[OF e(2)] show ?thesis by blast
qed

text \<open>
  C8, the claim: unregistering is idempotent; the removal of an identifier that is not
  registered, a second removal of an already removed connection included, is a no-op that
  returns without error and leaves the registration of every other connection unchanged.
  In the WebSocket hub the connections of one user to one session share the identifier
  \<open>sessionID_userID\<close>. The first connection of \<open>a\<close> is removed by the broadcast that
  finds its queue of 256 full, which also closes its channel; its own unregistration, which
  its read loop sends when it ends, is then a no-op as long as nobody has the identifier.
  Once \<open>a\<close> has reconnected, the same unregistration finds the identifier, deletes the
  entry of the new connection and closes the channel of the old one again: a panic. And
  with two tabs open, unregistering the first tab, which the second had replaced in the
  registry, removes the registration of the second.
\<close>

theorem C8_unregister_after_eviction:
  "fst (HandleWebSocket True ''S'' ''a'' NewWSService) = Some tab_a
   \<and> (\<exists>full evicted.
         broadcast_times 256 ''S'' msg0 ws_one = Inr full
       \<and> WSService_Broadcast ''S'' msg0 full = Inr evicted
       \<and> ws_clients evicted = [] \<and> ch_closed (ws_chans evicted 0)
       \<and> Run_unregister tab_a evicted = Inr evicted
       \<and> ws_clients (snd (HandleWebSocket True ''S'' ''a'' evicted))
           = [(''S_a'', \<lparr>ws_ID = ''S_a'', ws_SessionID = ''S'', ws_UserID = ''a'', ws_Send = 1\<rparr>)]
       \<and> Run_unregister tab_a (snd (HandleWebSocket True ''S'' ''a'' evicted))
           = Inl CloseOfClosedChannel)
   \<and> (\<exists>s'. Run_unregister tab_a two_tabs = Inr s' \<and> ws_clients s' = [])"
proof -
  let ?full = "ws_one\<lparr>ws_chans := (ws_chans ws_one)(0 :=
                 \<lparr>ch_buf = replicate 256 msg0, ch_cap = 256, ch_closed = False\<rparr>)\<rparr>"
  let ?ev = "?full\<lparr>ws_clients := [],
                ws_chans := (ws_chans ?full)(0 :=
                  \<lparr>ch_buf = replicate 256 msg0, ch_cap = 256, ch_closed = True\<rparr>)\<rparr>"
  have c: "ws_clients ws_one = [(''S_a'', tab_a)]" "ws_SessionID tab_a = ''S''"
    "\<not> ch_closed (ws_chans ws_one (ws_Send tab_a))"
    "length (ch_buf (ws_chans ws_one (ws_Send tab_a))) + 256 \<le> ch_cap (ws_chans ws_one (ws_Send tab_a))"
    by (simp_all add: ws_one_eq tab_a_def make_chan_def)
  have f: "broadcast_times 256 ''S'' msg0 ws_one = Inr ?full"
    using broadcast_times_fill[OF c, of msg0] by (simp add: ws_one_eq tab_a_def make_chan_def)
  have e: "WSService_Broadcast ''S'' msg0 ?full = Inr ?ev"
    by (simp add: WSService_Broadcast_def Run_broadcast_def ws_one_eq tab_a_def chan_full_def
        Let_def)
  have t: "fst (HandleWebSocket True ''S'' ''a'' NewWSService) = Some tab_a"
    by (simp add: tab_a_def HandleWebSocket_def NewWSService_def Let_def)
  have n: "Run_unregister tab_a ?ev = Inr ?ev" by (simp add: Run_unregister_def)
  have r: "ws_clients (snd (HandleWebSocket True ''S'' ''a'' ?ev))
           = [(''S_a'', \<lparr>ws_ID = ''S_a'', ws_SessionID = ''S'', ws_UserID = ''a'', ws_Send = 1\<rparr>)]"
    by (simp add: HandleWebSocket_def Run_register_def Let_def ws_one_eq)
  have p: "Run_unregister tab_a (snd (HandleWebSocket True ''S'' ''a'' ?ev)) = Inl CloseOfClosedChannel"
    by (simp add: Run_unregister_def HandleWebSocket_def Run_register_def Let_def ws_one_eq
        tab_a_def chan_close_def)
  have cl: "ws_clients ?ev = []" "ch_closed (ws_chans ?ev 0)" by simp_all
  have two: "\<exists>s'. Run_unregister tab_a two_tabs = Inr s' \<and> ws_clients s' = []"
    by (simp add: Run_unregister_def two_tabs_def tab_a_def HandleWebSocket_def Run_register_def
        NewWSService_def make_chan_def chan_close_def Let_def)
  from t f e cl n r p two show ?thesis by blast
qed

section \<open>Two tabs of one user\<close>

text \<open>
  C3. The claim: two simultaneously registered connections of the same (session, user),
  for instance two browser tabs, both remain registered, and one broadcast queues a copy of
  the event for each. \<open>HandleWebSocket\<close> names a client \<open>sessionID_userID\<close>, so the second
  tab replaces the first in the registry: one client is registered, the broadcast reaches
  the second tab's queue only, and when the first tab disconnects, its unregistration
  removes the entry of the second. \<open>AddClient\<close> of the SSE hub appends the clock reading
  to the id and keeps both.
\<close>

theorem C3_two_tabs_share_one_registration:
  "fst (HandleWebSocket True ''S'' ''a'' NewWSService)
     = Some \<lparr>ws_ID = ''S_a'', ws_SessionID = ''S'', ws_UserID = ''a'', ws_Send = 0\<rparr>
   \<and> ws_clients two_tabs
     = [(''S_a'', \<lparr>ws_ID = ''S_a'', ws_SessionID = ''S'', ws_UserID = ''a'', ws_Send = 1\<rparr>)]
   \<and> WSService_GetClientCount ''S'' two_tabs = 1
   \<and> (\<exists>s'. WSService_Broadcast ''S'' msg0 two_tabs = Inr s'
          \<and> ch_buf (ws_chans s' 0) = [] \<and> ch_buf (ws_chans s' 1) = [msg0])
   \<and> (\<exists>s'. Run_unregister \<lparr>ws_ID = ''S_a'', ws_SessionID = ''S'', ws_UserID = ''a'', ws_Send = 0\<rparr>
               two_tabs = Inr s'
          \<and> ws_clients s' = [] \<and> \<not> ch_closed (ws_chans s' 1))"
  by (simp add: hub_defs Run_unregister_def)

lemma SSE_two_tabs_both_registered:
  "map fst (sse_clients (snd (AddClient ''S'' ''a'' 2000 (snd (AddClient ''S'' ''a'' 1000 NewSSEService)))))
     = [''S_a_1000'', ''S_a_2000'']"
  by (simp add: AddClient_def NewSSEService_def itoa_def itoa_nat.simps Let_def)


end
